theory Spec2Isabelle
  imports Complex_Main "HOL-Library.Sublist" "HOL-Library.Char_ord" "HOL-Library.List_Lexorder"
begin

section \<open>Task records\<close>

text \<open>
  A geolocation payload as the client builds it (\<open>{lat, lng, accuracy}\<close>). Neither the
  client nor the server ever computes with it; it is only stored and passed on.
\<close>

datatype location = Location (lat: real) (lng: real) (accuracy: real)

text \<open>
  The fields every task object carries, on the server and in the browser. A JSON \<open>null\<close>
  in \<open>location\<close> or \<open>photo\<close> is \<open>None\<close>. Timestamps are the integers \<open>Date.now()\<close>
  returns.
\<close>

record task_fields =
  title :: string
  description :: string
  completed :: bool
  location :: "location option"
  photo :: "string option"
  createdAt :: int
  updatedAt :: int

text \<open>An element of the server's \<open>TASKS\<close> array: the fields above and the numeric \<open>id\<close>.\<close>

record server_task = task_fields +
  task_id :: nat

text \<open>
  An object of the IndexedDB store \<open>tasks\<close> (key path \<open>clientId\<close>). \<open>srv_id\<close> is the
  \<open>id\<close> property that the spread \<open>{...serverTask}\<close> copies (absent on a task the client
  created), \<open>localId\<close> is \<open>_localId\<close>. An absent \<open>dirty\<close> or \<open>deleted\<close> property is
  falsy, hence \<open>False\<close>.
\<close>

record local_task = task_fields +
  clientId :: string
  srv_id :: "nat option"
  localId :: "string option"
  dirty :: bool
  deleted :: bool

section \<open>Strings: prefixes, number formatting, parseInt\<close>

definition startsWith :: "string \<Rightarrow> string \<Rightarrow> bool" where
  "startsWith s p = prefix p s"

definition digit_char :: "nat \<Rightarrow> char" where
  "digit_char d = char_of (48 + d)"

text \<open>The decimal text of a non-negative integer, as a template literal prints it.\<close>

fun toString :: "nat \<Rightarrow> string" where
  "toString n = (if n < 10 then [digit_char n] else toString (n div 10) @ [digit_char (n mod 10)])"

declare toString.simps [simp del]

text \<open>\<open>`server_${serverTask.id}`\<close>\<close>

definition server_clientId :: "nat \<Rightarrow> string" where
  "server_clientId n = ''server_'' @ toString n"

text \<open>\<open>s.split(c)\<close> for a one-character separator.\<close>

fun split_on :: "char \<Rightarrow> string \<Rightarrow> string list" where
  "split_on c [] = [[]]"
| "split_on c (x # xs) =
     (if x = c then [] # split_on c xs
      else (case split_on c xs of [] \<Rightarrow> [[x]] | p # ps \<Rightarrow> (x # p) # ps))"

definition is_digit :: "char \<Rightarrow> bool" where
  "is_digit c = (48 \<le> (of_char c :: nat) \<and> (of_char c :: nat) \<le> 57)"

definition digit_val :: "char \<Rightarrow> nat" where
  "digit_val c = of_char c - 48"

definition digits_value :: "string \<Rightarrow> nat" where
  "digits_value ds = foldl (\<lambda>a c. 10 * a + digit_val c) 0 ds"

text \<open>
  \<open>parseInt\<close> on the strings that occur here: an optional sign, then the longest run of
  decimal digits; \<open>None\<close> is \<open>NaN\<close> (no digit at the start). Leading white space and the
  \<open>0x\<close> prefix, which \<open>parseInt\<close> also accepts, are not modelled (here white space
  first gives \<open>NaN\<close> and \<open>0x10\<close> gives 0); neither occurs after \<open>server_\<close> in a key
  built by \<open>server_clientId\<close>.
\<close>

definition parseInt :: "string \<Rightarrow> int option" where
  "parseInt s =
     (let neg = (s \<noteq> [] \<and> hd s = CHR ''-'');
          r = (if s \<noteq> [] \<and> (hd s = CHR ''-'' \<or> hd s = CHR ''+'') then tl s else s);
          ds = takeWhile is_digit r
      in if ds = [] then None
         else Some (if neg then - int (digits_value ds) else int (digits_value ds)))"

text \<open>
  \<open>parseInt(task.clientId.split('_')[1])\<close>; when the key has no underscore the index is
  out of range, \<open>parseInt(undefined)\<close> is \<open>NaN\<close>.
\<close>

definition serverId_of :: "string \<Rightarrow> int option" where
  "serverId_of cid =
     (let parts = split_on (CHR ''_'') cid
      in if length parts < 2 then None else parseInt (parts ! 1))"

section \<open>The IndexedDB object store\<close>

text \<open>
  The object store holds at most one object per key and \<open>getAll()\<close> returns the objects
  in ascending key order. The store is the list \<open>getAll()\<close> returns.
\<close>

type_synonym idb_store = "local_task list"

definition store_get :: "string \<Rightarrow> idb_store \<Rightarrow> local_task option" where
  "store_get k s = find (\<lambda>t. clientId t = k) s"

definition store_delete :: "string \<Rightarrow> idb_store \<Rightarrow> idb_store" where
  "store_delete k s = filter (\<lambda>t. clientId t \<noteq> k) s"

definition store_put :: "local_task \<Rightarrow> idb_store \<Rightarrow> idb_store" where
  "store_put t s = insort_key clientId t (store_delete (clientId t) s)"

text \<open>One object per key.\<close>

definition wf_store :: "idb_store \<Rightarrow> bool" where
  "wf_store s = distinct (map clientId s)"

text \<open>
  \<open>getAllTasksLocal\<close>: everything in the store that is not marked deleted, newest first
  (\<open>Array.prototype.sort\<close> is stable, as \<open>sort_key\<close> is).
\<close>

definition getAllTasksLocal :: "idb_store \<Rightarrow> local_task list" where
  "getAllTasksLocal s = sort_key (\<lambda>t. - createdAt t) (filter (\<lambda>t. \<not> deleted t) s)"

text \<open>
  \<open>renderTasks\<close> builds one DOM element per task of \<open>getAllTasksLocal()\<close>, in that order, and
  shows their number; the result here is the list of tasks shown.
\<close>

definition renderTasks :: "idb_store \<Rightarrow> local_task list" where
  "renderTasks s = getAllTasksLocal s"

text \<open>\<open>hasPendingSync\<close>\<close>

definition hasPendingSync :: "idb_store \<Rightarrow> bool" where
  "hasPendingSync s =
     list_ex (\<lambda>t. dirty t \<or> deleted t \<or> startsWith (clientId t) ''local_'') (getAllTasksLocal s)"

text \<open>
  \<open>deleteTaskLocal\<close>: a task that came from the server is kept and marked (deleted, dirty)
  so that the deletion can be sent later; a task only the client knows is removed at once.
  \<open>now\<close> is the value of \<open>Date.now()\<close>.
\<close>

definition deleteTaskLocal :: "int \<Rightarrow> string \<Rightarrow> idb_store \<Rightarrow> idb_store" where
  "deleteTaskLocal now cid s =
     (case store_get cid s of
        None \<Rightarrow> s
      | Some task \<Rightarrow>
          if startsWith cid ''server_''
          then store_put (task\<lparr>deleted := True, dirty := True, updatedAt := now\<rparr>) s
          else store_delete cid s)"

text \<open>
  The object literal \<open>{...serverTask, clientId}\<close>: the server's properties and the key.
  It has no \<open>_localId\<close>, \<open>dirty\<close> or \<open>deleted\<close> property.
\<close>

definition with_clientId :: "server_task \<Rightarrow> string \<Rightarrow> local_task" where
  "with_clientId serverTask cid =
     \<lparr>title = title serverTask, description = description serverTask,
      completed = completed serverTask, location = location serverTask,
      photo = photo serverTask, createdAt = createdAt serverTask,
      updatedAt = updatedAt serverTask,
      clientId = cid, srv_id = Some (task_id serverTask),
      localId = None, dirty = False, deleted = False\<rparr>"

text \<open>
  \<open>replaceLocalWithServer\<close>: delete the temporary entry, then put
  \<open>{...serverTask, clientId, dirty: false, _localId: null}\<close>.
\<close>

definition replaceLocalWithServer :: "string \<Rightarrow> server_task \<Rightarrow> idb_store \<Rightarrow> idb_store" where
  "replaceLocalWithServer localClientId serverTask s =
     (let clientId = server_clientId (task_id serverTask);
          newTask = (with_clientId serverTask clientId)\<lparr>dirty := False, localId := None\<rparr>
      in store_put newTask (store_delete localClientId s))"

text \<open>
  \<open>putTaskLocalClean\<close>: clear the dirty flag, stamp \<open>updatedAt\<close> with \<open>Date.now()\<close>, put.
\<close>

definition putTaskLocalClean :: "int \<Rightarrow> local_task \<Rightarrow> idb_store \<Rightarrow> idb_store" where
  "putTaskLocalClean now task s = store_put (task\<lparr>dirty := False, updatedAt := now\<rparr>) s"

section \<open>The network as the client sees it\<close>

text \<open>
  What \<open>await fetch(...)\<close> gives: the promise rejects (\<open>NetworkError\<close>), or there is a
  response with a status and a body; \<open>json\<close> is \<open>None\<close> when \<open>response.json()\<close> would
  reject.
\<close>

datatype 'a response = NetworkError | Response (status: nat) (json: "'a option")

text \<open>\<open>response.ok\<close>\<close>

definition response_ok :: "nat \<Rightarrow> bool" where
  "response_ok st = (200 \<le> st \<and> st \<le> 299)"

text \<open>
  The exceptions \<open>syncPendingTasks\<close> can end with: \<open>new Error('Sin conexion a internet')\<close>,
  the rejection of \<open>fetch\<close>, \<open>new Error(`HTTP ${response.status}`)\<close>, and the rejection of
  \<open>response.json()\<close>.
\<close>

datatype error = Offline | FetchFailed | HttpError nat | JsonError

text \<open>
  The sequence used around the create, update and list requests:
  \<open>response = await fetch(..); if (!response.ok) throw ..; data = await response.json()\<close>.
\<close>

definition fetch_json :: "'a response \<Rightarrow> error + 'a" where
  "fetch_json resp =
     (case resp of
        NetworkError \<Rightarrow> Inl FetchFailed
      | Response st body \<Rightarrow>
          if \<not> response_ok st then Inl (HttpError st)
          else (case body of None \<Rightarrow> Inl JsonError | Some d \<Rightarrow> Inr d))"

text \<open>
  A JSON value where the code expects a text: a string, or anything else (\<open>null\<close>, a
  number, a boolean, an array, an object). Of a value that is not a string the code only
  ever uses its truthiness, which \<open>NotString\<close> carries; no such value has a \<open>trim\<close>
  method, so \<open>.trim()\<close> on it throws a TypeError.
\<close>

datatype json_text = JString string | NotString bool

fun not_string :: "json_text option \<Rightarrow> bool" where
  "not_string (Some (NotString b)) = True"
| "not_string _ = False"

text \<open>
  A JSON request body with the five task properties; \<open>None\<close> is a property that is not
  in the body, \<open>Some None\<close> (location, photo) is \<open>null\<close>. \<open>b_completed\<close> is the
  truthiness of the property, the only thing \<open>!!completed\<close> reads.
\<close>

record req_body =
  b_title :: "json_text option"
  b_description :: "json_text option"
  b_completed :: "bool option"
  b_location :: "location option option"
  b_photo :: "string option option"

text \<open>The body the client sends for a task, on create and on update alike.\<close>

definition body_of :: "local_task \<Rightarrow> req_body" where
  "body_of t = \<lparr>b_title = Some (JString (title t)),
               b_description = Some (JString (description t)),
               b_completed = Some (completed t), b_location = Some (location t),
               b_photo = Some (photo t)\<rparr>"

text \<open>The parts of the response bodies that the client reads.\<close>

record task_reply =
  ok :: bool
  task :: "server_task option"

record list_reply =
  list_ok :: bool
  tasks :: "server_task list option"

record delete_reply =
  delete_ok :: bool
  was_deleted :: bool

datatype request =
    POST_tasks req_body
  | PUT_task "int option" req_body
  | DELETE_task "int option"
  | GET_tasks

text \<open>
  What \<open>syncPendingTasks\<close> depends on besides the store: \<open>navigator.onLine\<close>, the four
  requests (each answers from the remote state \<open>'r\<close> and may change it), and the clock
  (\<open>date_now k\<close> is what the \<open>k\<close>-th call of \<open>Date.now()\<close> returns).
\<close>

record 'r env =
  onLine :: bool
  post_tasks :: "req_body \<Rightarrow> 'r \<Rightarrow> task_reply response \<times> 'r"
  put_task :: "int option \<Rightarrow> req_body \<Rightarrow> 'r \<Rightarrow> task_reply response \<times> 'r"
  delete_task :: "int option \<Rightarrow> 'r \<Rightarrow> delete_reply response \<times> 'r"
  get_tasks :: "'r \<Rightarrow> list_reply response \<times> 'r"
  date_now :: "nat \<Rightarrow> int"

text \<open>
  The state a run works on: the object store, the remote side, the requests sent so far
  (oldest first) and the number of \<open>Date.now()\<close> calls made.
\<close>

record 'r world =
  idb :: idb_store
  remote :: 'r
  fetches :: "request list"
  ticks :: nat

definition sent :: "request \<Rightarrow> 'r \<Rightarrow> 'r world \<Rightarrow> 'r world" where
  "sent req r' w = w\<lparr>remote := r', fetches := fetches w @ [req]\<rparr>"

definition put_clean :: "'r env \<Rightarrow> local_task \<Rightarrow> 'r world \<Rightarrow> 'r world" where
  "put_clean e t w =
     w\<lparr>idb := putTaskLocalClean (date_now e (ticks w)) t (idb w), ticks := Suc (ticks w)\<rparr>"

section \<open>syncPendingTasks\<close>

text \<open>
  Phase 1, the body of \<open>for (const task of localTasks)\<close>. The result is the error thrown,
  or by how much \<open>syncedCount\<close> grows.
\<close>

definition create_iteration ::
  "'r env \<Rightarrow> local_task \<Rightarrow> 'r world \<Rightarrow> (error + nat) \<times> 'r world" where
  "create_iteration e t w =
     (case post_tasks e (body_of t) (remote w) of
        (resp, r') \<Rightarrow>
          let w1 = sent (POST_tasks (body_of t)) r' w in
          (case fetch_json resp of
             Inl err \<Rightarrow> (Inl err, w1)
           | Inr d \<Rightarrow>
               (case (if ok d then task d else None) of
                  Some serverTask \<Rightarrow>
                    (Inr 1, w1\<lparr>idb := replaceLocalWithServer (clientId t) serverTask (idb w1)\<rparr>)
                | None \<Rightarrow> (Inr 0, w1))))"

fun create_loop ::
  "'r env \<Rightarrow> local_task list \<Rightarrow> nat \<Rightarrow> 'r world \<Rightarrow> (error + nat) \<times> 'r world" where
  "create_loop e [] syncedCount w = (Inr syncedCount, w)"
| "create_loop e (t # ts) syncedCount w =
     (case create_iteration e t w of
        (Inl err, w1) \<Rightarrow> (Inl err, w1)
      | (Inr k, w1) \<Rightarrow> create_loop e ts (syncedCount + k) w1)"

text \<open>
  Phase 2, the body of \<open>for (const task of serverTasks)\<close>. In the delete branch a response
  that is not ok has no \<open>else\<close>: nothing happens; only a rejected \<open>fetch\<close> throws.
\<close>

definition update_iteration ::
  "'r env \<Rightarrow> local_task \<Rightarrow> 'r world \<Rightarrow> (error + nat) \<times> 'r world" where
  "update_iteration e t w =
     (let serverId = serverId_of (clientId t) in
      if deleted t then
        (case delete_task e serverId (remote w) of
           (resp, r') \<Rightarrow>
             let w1 = sent (DELETE_task serverId) r' w in
             (case resp of
                NetworkError \<Rightarrow> (Inl FetchFailed, w1)
              | Response st body \<Rightarrow>
                  if response_ok st
                  then (Inr 1, w1\<lparr>idb := store_delete (clientId t) (idb w1)\<rparr>)
                  else (Inr 0, w1)))
      else if dirty t then
        (case put_task e serverId (body_of t) (remote w) of
           (resp, r') \<Rightarrow>
             let w1 = sent (PUT_task serverId (body_of t)) r' w in
             (case fetch_json resp of
                Inl err \<Rightarrow> (Inl err, w1)
              | Inr d \<Rightarrow> if ok d then (Inr 1, put_clean e t w1) else (Inr 0, w1)))
      else (Inr 0, w))"

fun update_loop ::
  "'r env \<Rightarrow> local_task list \<Rightarrow> nat \<Rightarrow> 'r world \<Rightarrow> (error + nat) \<times> 'r world" where
  "update_loop e [] syncedCount w = (Inr syncedCount, w)"
| "update_loop e (t # ts) syncedCount w =
     (case update_iteration e t w of
        (Inl err, w1) \<Rightarrow> (Inl err, w1)
      | (Inr k, w1) \<Rightarrow> update_loop e ts (syncedCount + k) w1)"

text \<open>
  Phase 3, the body of \<open>for (const serverTask of data.tasks)\<close>: the object put is
  \<open>{...serverTask, clientId}\<close>, unless the store has a dirty object under that key.
\<close>

definition merge_iteration :: "'r env \<Rightarrow> server_task \<Rightarrow> 'r world \<Rightarrow> 'r world" where
  "merge_iteration e serverTask w =
     (let cid = server_clientId (task_id serverTask);
          existing = store_get cid (idb w)
      in if (case existing of None \<Rightarrow> True | Some x \<Rightarrow> \<not> dirty x)
         then put_clean e (with_clientId serverTask cid) w
         else w)"

fun merge_loop :: "'r env \<Rightarrow> server_task list \<Rightarrow> 'r world \<Rightarrow> 'r world" where
  "merge_loop e [] w = w"
| "merge_loop e (serverTask # rest) w = merge_loop e rest (merge_iteration e serverTask w)"

text \<open>
  The three phases. \<open>sync_pull\<close> is the whole \<open>try { ... } catch\<close> of phase 3: its
  \<open>catch\<close> only warns, so it has no error result. (The set \<open>localTaskIds\<close> computed there is
  never used.)
\<close>

definition sync_creates :: "'r env \<Rightarrow> 'r world \<Rightarrow> (error + nat) \<times> 'r world" where
  "sync_creates e w =
     (let allTasks = getAllTasksLocal (idb w);
          localTasks = filter (\<lambda>t. \<not> deleted t \<and> startsWith (clientId t) ''local_'') allTasks
      in create_loop e localTasks 0 w)"

definition sync_updates :: "'r env \<Rightarrow> nat \<Rightarrow> 'r world \<Rightarrow> (error + nat) \<times> 'r world" where
  "sync_updates e syncedCount w =
     (let updatedTasks = getAllTasksLocal (idb w);
          serverTasks = filter (\<lambda>t. startsWith (clientId t) ''server_'') updatedTasks
      in update_loop e serverTasks syncedCount w)"

definition sync_pull :: "'r env \<Rightarrow> 'r world \<Rightarrow> 'r world" where
  "sync_pull e w =
     (case get_tasks e (remote w) of
        (resp, r') \<Rightarrow>
          let w1 = sent GET_tasks r' w in
          (case fetch_json resp of
             Inl err \<Rightarrow> w1
           | Inr d \<Rightarrow>
               (case (if list_ok d then tasks d else None) of
                  Some serverTasks \<Rightarrow> merge_loop e serverTasks w1
                | None \<Rightarrow> w1)))"

text \<open>
  \<open>syncPendingTasks\<close>: the error thrown or the \<open>syncedCount\<close> returned, and the state left
  behind in either case. The final \<open>renderTasks()\<close> only reads the store.
\<close>

definition syncPendingTasks :: "'r env \<Rightarrow> 'r world \<Rightarrow> (error + nat) \<times> 'r world" where
  "syncPendingTasks e w =
     (if \<not> onLine e then (Inl Offline, w)
      else
        (case sync_creates e w of
           (Inl err, w1) \<Rightarrow> (Inl err, w1)
         | (Inr n1, w1) \<Rightarrow>
             (case sync_updates e n1 w1 of
                (Inl err, w2) \<Rightarrow> (Inl err, w2)
              | (Inr n2, w2) \<Rightarrow> (Inr n2, sync_pull e w2))))"

section \<open>The server (server.js)\<close>

record server_state =
  TASKS :: "server_task list"
  NEXT_ID :: nat

text \<open>
  The store at start-up: two tasks, \<open>NEXT_ID = TASKS.length + 1\<close>; \<open>now\<close> is
  \<open>Date.now()\<close> when the module is loaded.
\<close>

definition init_server :: "int \<Rightarrow> server_state" where
  "init_server now =
     \<lparr>TASKS =
        [\<lparr>title = ''Comprar leche'', description = ''Leche entera 1L'', completed = False,
          location = None, photo = None, createdAt = now - 3600000,
          updatedAt = now - 3600000, task_id = 1\<rparr>,
         \<lparr>title = ''Enviar reporte'', description = ''Reporte semanal al equipo'',
          completed = False, location = None, photo = None, createdAt = now - 7200000,
          updatedAt = now - 7200000, task_id = 2\<rparr>],
      NEXT_ID = 3\<rparr>"

text \<open>White space that \<open>trim()\<close> removes, among the characters a \<open>char\<close> can hold.\<close>

definition is_white :: "char \<Rightarrow> bool" where
  "is_white c = ((of_char c :: nat) \<in> set [9, 10, 11, 12, 13, 32, 160])"

definition trim :: "string \<Rightarrow> string" where
  "trim s = rev (dropWhile is_white (rev (dropWhile is_white s)))"

text \<open>The position of the first element that satisfies \<open>P\<close>: the object \<open>TASKS.find\<close> returns.\<close>

fun index_of :: "('a \<Rightarrow> bool) \<Rightarrow> 'a list \<Rightarrow> nat option" where
  "index_of P [] = None"
| "index_of P (x # xs) = (if P x then Some 0 else map_option Suc (index_of P xs))"

text \<open>\<open>x || null\<close> for a location (an object, always truthy) and for a photo (a string).\<close>

definition location_or_null :: "location option option \<Rightarrow> location option" where
  "location_or_null l = (case l of Some (Some v) \<Rightarrow> Some v | _ \<Rightarrow> None)"

definition photo_or_null :: "string option option \<Rightarrow> string option" where
  "photo_or_null p = (case p of Some (Some v) \<Rightarrow> (if v = [] then None else Some v) | _ \<Rightarrow> None)"

text \<open>\<open>GET /api/tasks\<close>: \<open>TASKS.sort\<close> sorts the array in place.\<close>

definition get_tasks_handler :: "server_state \<Rightarrow> list_reply response \<times> server_state" where
  "get_tasks_handler s =
     (let sorted_tasks = sort_key (\<lambda>t. - createdAt t) (TASKS s)
      in (Response 200 (Some \<lparr>list_ok = True, tasks = Some sorted_tasks\<rparr>),
          s\<lparr>TASKS := sorted_tasks\<rparr>))"

text \<open>
  \<open>POST /api/tasks\<close>. A handler that throws is answered by the error handler at the end
  of server.js with status 500; what the handler had changed before stays changed. Here
  \<open>title.trim()\<close> in the validation throws on a truthy title that is not a string,
  before anything is changed; \<open>description.trim()\<close> throws on a truthy description that
  is not a string, inside the object literal, after \<open>id: NEXT_ID++\<close> has run.
\<close>

definition post_tasks_handler ::
  "int \<Rightarrow> req_body \<Rightarrow> server_state \<Rightarrow> task_reply response \<times> server_state" where
  "post_tasks_handler now body s =
     (case b_title body of
        None \<Rightarrow> (Response 400 (Some \<lparr>ok = False, task = None\<rparr>), s)
      | Some (NotString truthy) \<Rightarrow>
          if truthy then (Response 500 (Some \<lparr>ok = False, task = None\<rparr>), s)
          else (Response 400 (Some \<lparr>ok = False, task = None\<rparr>), s)
      | Some (JString t) \<Rightarrow>
          if t = [] \<or> trim t = []
          then (Response 400 (Some \<lparr>ok = False, task = None\<rparr>), s)
          else
            (case b_description body of
               Some (NotString True) \<Rightarrow>
                 (Response 500 (Some \<lparr>ok = False, task = None\<rparr>),
                  s\<lparr>NEXT_ID := NEXT_ID s + 1\<rparr>)
             | d \<Rightarrow>
                 let new_task =
                       \<lparr>title = trim t,
                        description = (case d of
                                         Some (JString x) \<Rightarrow> if x = [] then [] else trim x
                                       | _ \<Rightarrow> []),
                        completed = (case b_completed body of None \<Rightarrow> False | Some c \<Rightarrow> c),
                        location = location_or_null (b_location body),
                        photo = photo_or_null (b_photo body),
                        createdAt = now, updatedAt = now, task_id = NEXT_ID s\<rparr>
                 in (Response 201 (Some \<lparr>ok = True, task = Some new_task\<rparr>),
                     s\<lparr>TASKS := TASKS s @ [new_task], NEXT_ID := NEXT_ID s + 1\<rparr>)))"

text \<open>
  \<open>PUT /api/tasks/:id\<close>. \<open>idp\<close> is \<open>Number(req.params.id)\<close>, \<open>None\<close> for \<open>NaN\<close>. The five
  assignments guarded by \<open>typeof x !== 'undefined'\<close>, then \<open>updatedAt\<close>. The task
  object is changed in place, assignment by assignment: \<open>Inr\<close> is the task after all of
  them, \<open>Inl\<close> is the task as it is when \<open>title.trim()\<close> or \<open>description.trim()\<close>
  throws because the value is present and not a string.
\<close>

definition put_changes :: "int \<Rightarrow> req_body \<Rightarrow> server_task \<Rightarrow> server_task + server_task" where
  "put_changes now body t =
     (case b_title body of
        Some (NotString b) \<Rightarrow> Inl t
      | title_given \<Rightarrow>
          let t1 = (case title_given of Some (JString x) \<Rightarrow> t\<lparr>title := trim x\<rparr> | _ \<Rightarrow> t) in
          (case b_description body of
             Some (NotString b) \<Rightarrow> Inl t1
           | description_given \<Rightarrow>
               let t2 = (case description_given of
                           Some (JString x) \<Rightarrow> t1\<lparr>description := trim x\<rparr> | _ \<Rightarrow> t1);
                   t3 = (case b_completed body of None \<Rightarrow> t2 | Some x \<Rightarrow> t2\<lparr>completed := x\<rparr>);
                   t4 = (case b_location body of None \<Rightarrow> t3 | Some x \<Rightarrow> t3\<lparr>location := x\<rparr>);
                   t5 = (case b_photo body of None \<Rightarrow> t4 | Some x \<Rightarrow> t4\<lparr>photo := x\<rparr>)
               in Inr (t5\<lparr>updatedAt := now\<rparr>)))"

definition put_task_handler ::
  "int \<Rightarrow> int option \<Rightarrow> req_body \<Rightarrow> server_state \<Rightarrow> task_reply response \<times> server_state" where
  "put_task_handler now idp body s =
     (case index_of (\<lambda>t. Some (int (task_id t)) = idp) (TASKS s) of
        None \<Rightarrow> (Response 404 (Some \<lparr>ok = False, task = None\<rparr>), s)
      | Some i \<Rightarrow>
          (case put_changes now body (TASKS s ! i) of
             Inl t' \<Rightarrow>
               (Response 500 (Some \<lparr>ok = False, task = None\<rparr>),
                s\<lparr>TASKS := (TASKS s)[i := t']\<rparr>)
           | Inr t' \<Rightarrow>
               (Response 200 (Some \<lparr>ok = True, task = Some t'\<rparr>),
                s\<lparr>TASKS := (TASKS s)[i := t']\<rparr>)))"

text \<open>\<open>DELETE /api/tasks/:id\<close>: always status 200, whether a task was removed or not.\<close>

definition delete_task_handler ::
  "int option \<Rightarrow> server_state \<Rightarrow> delete_reply response \<times> server_state" where
  "delete_task_handler idp s =
     (let remaining = filter (\<lambda>t. Some (int (task_id t)) \<noteq> idp) (TASKS s);
          gone = (length remaining < length (TASKS s))
      in (Response 200 (Some \<lparr>delete_ok = True, was_deleted = gone\<rparr>),
          s\<lparr>TASKS := remaining\<rparr>))"

text \<open>\<open>DELETE /api/tasks\<close>: the number of tasks removed, and the emptied store.\<close>

definition delete_all_handler :: "server_state \<Rightarrow> nat \<times> server_state" where
  "delete_all_handler s = (length (TASKS s), s\<lparr>TASKS := []\<rparr>)"

text \<open>
  \<open>POST /api/sync\<close>. An element of \<open>req.body.tasks\<close>; \<open>None\<close> is an absent property.
\<close>

record sync_item =
  i_localId :: "string option"
  i_id :: "nat option"
  i_title :: "string option"
  i_description :: "string option"
  i_completed :: "bool option"
  i_location :: "location option option"
  i_photo :: "string option option"
  i_createdAt :: "int option"

text \<open>
  The loop state of \<open>incoming.forEach\<close>. The arrays \<open>created\<close> and \<open>updated\<close> hold
  references to objects of \<open>TASKS\<close>, which a later element of the same request may still
  change; they are kept as positions in \<open>TASKS\<close> and read when the response is built.
\<close>

record sync_acc =
  acc_state :: server_state
  acc_created :: "nat list"
  acc_updated :: "nat list"
  acc_mapping :: "(string \<times> nat) list"

definition sync_changes :: "int \<Rightarrow> sync_item \<Rightarrow> server_task \<Rightarrow> server_task" where
  "sync_changes now item existing =
     existing\<lparr>title := (case i_title item of None \<Rightarrow> title existing | Some x \<Rightarrow> x),
              description := (case i_description item of
                                None \<Rightarrow> description existing | Some x \<Rightarrow> x),
              completed := (case i_completed item of None \<Rightarrow> completed existing | Some x \<Rightarrow> x),
              location := (case i_location item of None \<Rightarrow> location existing | Some x \<Rightarrow> x),
              photo := (case i_photo item of None \<Rightarrow> photo existing | Some x \<Rightarrow> x),
              updatedAt := now\<rparr>"

text \<open>One element, with the value \<open>Date.now()\<close> has while it is handled.\<close>

definition sync_item_step :: "int \<times> sync_item \<Rightarrow> sync_acc \<Rightarrow> sync_acc" where
  "sync_item_step ni a =
     (let now = fst ni; item = snd ni; s = acc_state a;
          has_localId = (case i_localId item of None \<Rightarrow> False | Some l \<Rightarrow> l \<noteq> []);
          has_id = (case i_id item of None \<Rightarrow> False | Some n \<Rightarrow> n \<noteq> 0)
      in if has_localId \<and> \<not> has_id then
           let newTask =
                 \<lparr>title = (case i_title item of
                             None \<Rightarrow> ''Sin t'' @ [CHR 0xED] @ ''tulo''
                           | Some x \<Rightarrow> if x = [] then ''Sin t'' @ [CHR 0xED] @ ''tulo'' else x),
                  description = (case i_description item of None \<Rightarrow> [] | Some x \<Rightarrow> x),
                  completed = (case i_completed item of None \<Rightarrow> False | Some c \<Rightarrow> c),
                  location = location_or_null (i_location item),
                  photo = photo_or_null (i_photo item),
                  createdAt = (case i_createdAt item of
                                 None \<Rightarrow> now | Some c \<Rightarrow> if c = 0 then now else c),
                  updatedAt = now, task_id = NEXT_ID s\<rparr>
           in a\<lparr>acc_state := s\<lparr>TASKS := TASKS s @ [newTask], NEXT_ID := NEXT_ID s + 1\<rparr>,
                acc_created := acc_created a @ [length (TASKS s)],
                acc_mapping := acc_mapping a @ [(the (i_localId item), NEXT_ID s)]\<rparr>
         else if has_id then
           (case index_of (\<lambda>t. task_id t = the (i_id item)) (TASKS s) of
              None \<Rightarrow> a
            | Some i \<Rightarrow>
                a\<lparr>acc_state := s\<lparr>TASKS := (TASKS s)[i := sync_changes now item (TASKS s ! i)]\<rparr>,
                  acc_updated := acc_updated a @ [i]\<rparr>)
         else a)"

record sync_reply =
  created :: "server_task list"
  updated :: "server_task list"
  mapping :: "(string \<times> nat) list"
  serverTasks :: "server_task list"

definition sync_handler ::
  "(int \<times> sync_item) list \<Rightarrow> server_state \<Rightarrow> sync_reply \<times> server_state" where
  "sync_handler incoming s =
     (let a = foldl (\<lambda>a ni. sync_item_step ni a) 
                \<lparr>acc_state = s, acc_created = [], acc_updated = [], acc_mapping = []\<rparr> incoming;
          s' = acc_state a
      in (\<lparr>created = map (\<lambda>i. TASKS s' ! i) (acc_created a),
           updated = map (\<lambda>i. TASKS s' ! i) (acc_updated a),
           mapping = acc_mapping a, serverTasks = TASKS s'\<rparr>, s'))"

text \<open>
  The task routes as one step function. Each request comes with the value of
  \<open>Date.now()\<close> at its arrival (\<open>POST /api/sync\<close> carries its own, one per element).
  The result lists the ids of the tasks the response reports as newly created.
\<close>

datatype http_request =
    GetTasks
  | PostTasks req_body
  | PutTask "int option" req_body
  | DeleteTask "int option"
  | DeleteAll
  | PostSync "(int \<times> sync_item) list"

fun serve :: "int \<Rightarrow> http_request \<Rightarrow> server_state \<Rightarrow> nat list \<times> server_state" where
  "serve now GetTasks s = ([], snd (get_tasks_handler s))"
| "serve now (PostTasks body) s =
     (case post_tasks_handler now body s of
        (Response st (Some r), s') \<Rightarrow>
          ((case task r of None \<Rightarrow> [] | Some t \<Rightarrow> [task_id t]), s')
      | (_, s') \<Rightarrow> ([], s'))"
| "serve now (PutTask idp body) s = ([], snd (put_task_handler now idp body s))"
| "serve now (DeleteTask idp) s = ([], snd (delete_task_handler idp s))"
| "serve now DeleteAll s = ([], snd (delete_all_handler s))"
| "serve now (PostSync incoming) s =
     (case sync_handler incoming s of (r, s') \<Rightarrow> (map task_id (created r), s'))"

fun serve_all :: "(int \<times> http_request) list \<Rightarrow> server_state \<Rightarrow> nat list \<times> server_state" where
  "serve_all [] s = ([], s)"
| "serve_all ((now, req) # rest) s =
     (case serve now req s of
        (ids, s1) \<Rightarrow> (case serve_all rest s1 of (ids', s2) \<Rightarrow> (ids @ ids', s2)))"

text \<open>Every task in the store has an id below \<open>NEXT_ID\<close>, and no two share one.\<close>

definition server_inv :: "server_state \<Rightarrow> bool" where
  "server_inv s =
     (list_all (\<lambda>t. task_id t < NEXT_ID s) (TASKS s) \<and> distinct (map task_id (TASKS s)))"

text \<open>
  The client talking to this server: the remote state is the server's state and the
  number of requests it has served; \<open>server_clock k\<close> is the server's \<open>Date.now()\<close> during
  request \<open>k\<close>. No request is lost.
\<close>

definition server_env ::
  "bool \<Rightarrow> (nat \<Rightarrow> int) \<Rightarrow> (nat \<Rightarrow> int) \<Rightarrow> (server_state \<times> nat) env" where
  "server_env online client_clock server_clock =
     \<lparr>onLine = online,
      post_tasks = (\<lambda>body (s, k).
         case post_tasks_handler (server_clock k) body s of (resp, s') \<Rightarrow> (resp, (s', Suc k))),
      put_task = (\<lambda>idp body (s, k).
         case put_task_handler (server_clock k) idp body s of (resp, s') \<Rightarrow> (resp, (s', Suc k))),
      delete_task = (\<lambda>idp (s, k).
         case delete_task_handler idp s of (resp, s') \<Rightarrow> (resp, (s', Suc k))),
      get_tasks = (\<lambda>(s, k).
         case get_tasks_handler s of (resp, s') \<Rightarrow> (resp, (s', Suc k))),
      date_now = client_clock\<rparr>"

text \<open>A network on which every request is lost.\<close>

definition dead_env :: "(nat \<Rightarrow> int) \<Rightarrow> unit env" where
  "dead_env client_clock =
     \<lparr>onLine = True,
      post_tasks = (\<lambda>body r. (NetworkError, r)),
      put_task = (\<lambda>idp body r. (NetworkError, r)),
      delete_task = (\<lambda>idp r. (NetworkError, r)),
      get_tasks = (\<lambda>r. (NetworkError, r)),
      date_now = client_clock\<rparr>"

section \<open>Example data\<close>

text \<open>
  A browser whose store mirrors the two tasks the server starts with (server start at
  time 9000000), and the second of them after \<open>deleteTaskLocal\<close> at time 9200000.
\<close>

definition example_clean :: local_task where
  "example_clean =
     \<lparr>title = ''Comprar leche'', description = ''Leche entera 1L'', completed = False,
      location = None, photo = None, createdAt = 5400000, updatedAt = 9100000,
      clientId = ''server_1'', srv_id = Some 1, localId = None, dirty = False,
      deleted = False\<rparr>"

definition example_clean2 :: local_task where
  "example_clean2 =
     \<lparr>title = ''Enviar reporte'', description = ''Reporte semanal al equipo'',
      completed = False, location = None, photo = None, createdAt = 1800000,
      updatedAt = 9100001, clientId = ''server_2'', srv_id = Some 2, localId = None,
      dirty = False, deleted = False\<rparr>"

definition example_tombstone :: local_task where
  "example_tombstone = example_clean2\<lparr>deleted := True, dirty := True, updatedAt := 9200000\<rparr>"

text \<open>A task created offline, an edit of the first task that is not sent yet, and an
  edit of a task the server does not have.\<close>

definition example_local :: local_task where
  "example_local =
     \<lparr>title = ''Pagar luz'', description = [], completed = False,
      location = None, photo = None, createdAt = 9150000, updatedAt = 9150000,
      clientId = ''local_9150000_k3j9x2m1a'', srv_id = None,
      localId = Some ''local_9150000_k3j9x2m1a'', dirty = True, deleted = False\<rparr>"

definition example_local2 :: local_task where
  "example_local2 =
     \<lparr>title = ''Llamar al banco'', description = [], completed = False,
      location = None, photo = None, createdAt = 9160000, updatedAt = 9160000,
      clientId = ''local_9160000_p0q8w7e6r'', srv_id = None,
      localId = Some ''local_9160000_p0q8w7e6r'', dirty = True, deleted = False\<rparr>"

definition example_edited :: local_task where
  "example_edited = example_clean\<lparr>title := ''Comprar pan'', dirty := True, updatedAt := 9170000\<rparr>"

definition example_orphan :: local_task where
  "example_orphan =
     \<lparr>title = ''Regar plantas'', description = [], completed = True,
      location = None, photo = None, createdAt = 8000000, updatedAt = 9180000,
      clientId = ''server_7'', srv_id = Some 7, localId = None, dirty = True,
      deleted = False\<rparr>"

definition example_clock :: "nat \<Rightarrow> int" where
  "example_clock k = 9300000 + int k"

definition example_env :: "(server_state \<times> nat) env" where
  "example_env = server_env True example_clock example_clock"

definition example_world :: "idb_store \<Rightarrow> (server_state \<times> nat) world" where
  "example_world s = \<lparr>idb = s, remote = (init_server 9000000, 0), fetches = [], ticks = 0\<rparr>"

definition dead_world :: "idb_store \<Rightarrow> unit world" where
  "dead_world s = \<lparr>idb = s, remote = (), fetches = [], ticks = 0\<rparr>"

definition example_put_body :: req_body where
  "example_put_body =
     \<lparr>b_title = None, b_description = None, b_completed = Some True,
      b_location = None, b_photo = None\<rparr>"

definition example_post_body :: req_body where
  "example_post_body =
     \<lparr>b_title = Some (JString ''  Pagar luz ''), b_description = None, b_completed = None,
      b_location = None, b_photo = None\<rparr>"

text \<open>\<open>{"title": "x", "description": null}\<close> and \<open>{"title": "Pagar luz", "description": 7}\<close>\<close>

definition example_null_body :: req_body where
  "example_null_body =
     \<lparr>b_title = Some (JString ''x''), b_description = Some (NotString False),
      b_completed = None, b_location = None, b_photo = None\<rparr>"

definition example_number_body :: req_body where
  "example_number_body =
     \<lparr>b_title = Some (JString ''Pagar luz''), b_description = Some (NotString True),
      b_completed = None, b_location = None, b_photo = None\<rparr>"

definition example_sync_item :: sync_item where
  "example_sync_item =
     \<lparr>i_localId = Some ''local_1700000000000_k3j9x2m1a'', i_id = None,
      i_title = Some ''Llamar al banco'', i_description = None, i_completed = None,
      i_location = None, i_photo = None, i_createdAt = Some 9250000\<rparr>"

definition example_requests :: "(int \<times> http_request) list" where
  "example_requests =
     [(9300000, PostTasks example_post_body),
      (9300001, DeleteAll),
      (9300002, PostTasks example_number_body),
      (9300003, PostSync [(9300003, example_sync_item)]),
      (9300004, PutTask (Some 5) example_put_body),
      (9300005, PostTasks example_post_body)]"

text \<open>What the server answers when \<open>example_local\<close> is the first task posted to it.\<close>

definition example_created :: server_task where
  "example_created =
     \<lparr>title = ''Pagar luz'', description = [], completed = False, location = None,
      photo = None, createdAt = 9300000, updatedAt = 9300000, task_id = 3\<rparr>"

text \<open>A clean local copy of the second task whose title is out of date.\<close>

definition example_stale :: local_task where
  "example_stale = example_clean2\<lparr>title := ''Enviar informe''\<rparr>"

section \<open>Auxiliary invariants\<close>

text \<open>
  What holds of the loop state of \<open>POST /api/sync\<close> after each element, when the request
  arrived with \<open>NEXT_ID = n0\<close>: the objects recorded as created carry the ids from \<open>n0\<close>
  up to the current \<open>NEXT_ID\<close>, in order.
\<close>

definition sync_ok :: "nat \<Rightarrow> bool \<Rightarrow> sync_acc \<Rightarrow> bool" where
  "sync_ok n0 inv0 a \<longleftrightarrow>
     map (\<lambda>i. task_id (TASKS (acc_state a) ! i)) (acc_created a) = [n0 ..< NEXT_ID (acc_state a)]
     \<and> (\<forall>i \<in> set (acc_created a). i < length (TASKS (acc_state a)))
     \<and> n0 \<le> NEXT_ID (acc_state a)
     \<and> (inv0 \<longrightarrow> server_inv (acc_state a))"

text \<open>
  A stored object that is a clean copy of a server task: it sits under that task's key,
  has the task's content fields and creation time, and is not dirty.
\<close>

definition clean_copy_of :: "server_task \<Rightarrow> local_task \<Rightarrow> bool" where
  "clean_copy_of r x \<longleftrightarrow>
     clientId x = server_clientId (task_id r) \<and> title x = title r
     \<and> description x = description r \<and> completed x = completed r
     \<and> location x = location r \<and> photo x = photo r \<and> createdAt x = createdAt r
     \<and> \<not> dirty x"

fun is_delete :: "request \<Rightarrow> bool" where
  "is_delete (DELETE_task idp) = True"
| "is_delete _ = False"

section \<open>Facts about the object store\<close>

lemma find_insort_key_other:
  "\<not> P t \<Longrightarrow> find P (insort_key f t xs) = find P xs"
  by (induction xs) auto

lemma find_insort_key_new:
  "P t \<Longrightarrow> \<forall>x \<in> set xs. \<not> P x \<Longrightarrow> find P (insort_key f t xs) = Some t"
  by (induction xs) auto

lemma store_get_delete:
  "store_get k (store_delete k' s) = (if k = k' then None else store_get k s)"
  unfolding store_get_def store_delete_def
  by (induction s) auto

lemma store_get_put:
  "store_get k (store_put t s) = (if k = clientId t then Some t else store_get k s)"
proof (cases "k = clientId t")
  case True
  have "find (\<lambda>x. clientId x = clientId t) (insort_key clientId t (store_delete (clientId t) s)) = Some t"
    by (rule find_insort_key_new) (auto simp: store_delete_def)
  with True show ?thesis by (simp add: store_get_def store_put_def)
next
  case False
  then have "find (\<lambda>x. clientId x = k) (insort_key clientId t (store_delete (clientId t) s))
             = find (\<lambda>x. clientId x = k) (store_delete (clientId t) s)"
    by (intro find_insort_key_other) auto
  with False show ?thesis
    using store_get_delete [of k "clientId t" s] by (simp add: store_get_def store_put_def)
qed

lemma map_insort_key:
  "map f (insort_key f x xs) = insort (f x) (map f xs)"
  by (induction xs) auto

lemma wf_store_delete: "wf_store s \<Longrightarrow> wf_store (store_delete k s)"
  by (simp add: wf_store_def store_delete_def distinct_map_filter)

lemma wf_store_put: "wf_store s \<Longrightarrow> wf_store (store_put t s)"
proof -
  assume "wf_store s"
  then have d: "distinct (map clientId (store_delete (clientId t) s))"
    using wf_store_delete by (simp add: wf_store_def)
  have "clientId t \<notin> set (map clientId (store_delete (clientId t) s))"
    by (auto simp: store_delete_def)
  with d show ?thesis
    by (simp add: wf_store_def store_put_def map_insort_key distinct_insort)
qed

lemma store_get_mem:
  "wf_store s \<Longrightarrow> t \<in> set s \<Longrightarrow> store_get (clientId t) s = Some t"
  unfolding wf_store_def store_get_def
  by (induction s) (auto simp: rev_image_eqI)

lemma store_get_Some: "store_get k s = Some t \<Longrightarrow> t \<in> set s \<and> clientId t = k"
  unfolding store_get_def by (induction s) (auto split: if_splits)

lemma set_getAllTasksLocal: "set (getAllTasksLocal s) = {t \<in> set s. \<not> deleted t}"
  by (simp add: getAllTasksLocal_def)

lemma distinct_getAllTasksLocal:
  "wf_store s \<Longrightarrow> distinct (map clientId (getAllTasksLocal s))"
proof -
  assume "wf_store s"
  then have "distinct (map clientId (filter (\<lambda>t. \<not> deleted t) s))"
    by (simp add: wf_store_def distinct_map_filter)
  then show ?thesis
    unfolding getAllTasksLocal_def by (simp add: distinct_map)
qed

section \<open>Listings\<close>

text \<open>
  C8. A task marked deleted is in no listing: neither in what \<open>getAllTasksLocal\<close> returns
  (the only read of the task set that the user interface and \<open>syncPendingTasks\<close> list from)
  nor in what \<open>renderTasks\<close> shows.
\<close>

theorem listing_excludes_deleted:
  "(\<forall>t \<in> set (getAllTasksLocal s). \<not> deleted t) \<and> (\<forall>t \<in> set (renderTasks s). \<not> deleted t)"
  by (simp add: renderTasks_def getAllTasksLocal_def)

theorem listing_excludes_deleted_witness:
  "renderTasks [example_clean, example_tombstone] = [example_clean]
   \<and> example_clean \<in> set (getAllTasksLocal [example_clean, example_tombstone])
   \<and> \<not> deleted example_clean \<and> deleted example_tombstone"
  using listing_excludes_deleted [of "[example_clean, example_tombstone]"]
  by (simp add: renderTasks_def getAllTasksLocal_def example_clean_def example_tombstone_def)

section \<open>The server's task routes\<close>

lemma index_of_SomeD:
  "index_of P xs = Some i \<Longrightarrow> i < length xs \<and> P (xs ! i) \<and> find P xs = Some (xs ! i)"
  by (induction xs arbitrary: i) (auto split: if_splits)

lemma index_of_None: "index_of P xs = None \<longleftrightarrow> find P xs = None"
  by (induction xs) auto

lemma find_Some_index_of:
  "find P xs = Some t \<Longrightarrow> \<exists>i. index_of P xs = Some i \<and> xs ! i = t"
  by (induction xs) (auto split: if_splits)

lemma find_update_at_index:
  "index_of P xs = Some i \<Longrightarrow> P y \<Longrightarrow> find P (xs[i := y]) = Some y"
  by (induction xs arbitrary: i) (auto split: if_splits)

lemma filter_update_at_index:
  "index_of P xs = Some i \<Longrightarrow> P y \<Longrightarrow>
   filter (\<lambda>x. \<not> P x) (xs[i := y]) = filter (\<lambda>x. \<not> P x) xs"
  by (induction xs arbitrary: i) (auto split: if_splits)

lemma put_changes_completes:
  assumes "\<not> not_string (b_title body)" and "\<not> not_string (b_description body)"
  shows "\<exists>t'. put_changes now body t = Inr t'
     \<and> title t' = (case b_title body of Some (JString x) \<Rightarrow> trim x | _ \<Rightarrow> title t)
     \<and> description t' = (case b_description body of Some (JString x) \<Rightarrow> trim x | _ \<Rightarrow> description t)
     \<and> completed t' = (case b_completed body of None \<Rightarrow> completed t | Some x \<Rightarrow> x)
     \<and> location t' = (case b_location body of None \<Rightarrow> location t | Some x \<Rightarrow> x)
     \<and> photo t' = (case b_photo body of None \<Rightarrow> photo t | Some x \<Rightarrow> x)
     \<and> task_id t' = task_id t \<and> createdAt t' = createdAt t \<and> updatedAt t' = now"
  using assms
  by (cases "b_title body"; cases "b_description body")
     (auto simp: put_changes_def Let_def split: option.splits json_text.splits)

lemma put_changes_throws:
  assumes "not_string (b_title body) \<or> not_string (b_description body)"
  shows "\<exists>t'. put_changes now body t = Inl t'
     \<and> (b_title body = None \<longrightarrow> title t' = title t)
     \<and> description t' = description t \<and> completed t' = completed t
     \<and> location t' = location t \<and> photo t' = photo t
     \<and> task_id t' = task_id t \<and> createdAt t' = createdAt t \<and> updatedAt t' = updatedAt t"
  using assms
  by (cases "b_title body"; cases "b_description body")
     (auto simp: put_changes_def Let_def split: option.splits json_text.splits)

lemma server_inv_ids:
  "server_inv s \<longleftrightarrow>
     (\<forall>n \<in> set (map task_id (TASKS s)). n < NEXT_ID s) \<and> distinct (map task_id (TASKS s))"
  by (auto simp: server_inv_def list_all_iff)

lemma map_update_same:
  "i < length xs \<Longrightarrow> f y = f (xs ! i) \<Longrightarrow> map f (xs[i := y]) = map f xs"
  by (simp add: map_update list_update_same_conv)

lemma task_id_put_changes:
  "put_changes now body t = Inl x \<Longrightarrow> task_id x = task_id t"
  "put_changes now body t = Inr x \<Longrightarrow> task_id x = task_id t"
  using put_changes_completes [of body now t] put_changes_throws [of body now t]
  by (cases "not_string (b_title body) \<or> not_string (b_description body)"; auto)+

lemma task_id_sync_changes: "task_id (sync_changes now item t) = task_id t"
  by (simp add: sync_changes_def)

lemma get_tasks_handler_ids:
  "NEXT_ID (snd (get_tasks_handler s)) = NEXT_ID s"
  "server_inv s \<Longrightarrow> server_inv (snd (get_tasks_handler s))"
  by (auto simp: get_tasks_handler_def Let_def server_inv_ids distinct_map)

lemma put_task_handler_ids:
  "NEXT_ID (snd (put_task_handler now idp body s)) = NEXT_ID s"
  "map task_id (TASKS (snd (put_task_handler now idp body s))) = map task_id (TASKS s)"
  by (auto simp: put_task_handler_def map_update_same task_id_put_changes
           split: option.splits sum.splits dest!: index_of_SomeD)

lemma delete_task_handler_ids:
  "NEXT_ID (snd (delete_task_handler idp s)) = NEXT_ID s"
  "server_inv s \<Longrightarrow> server_inv (snd (delete_task_handler idp s))"
  by (auto simp: delete_task_handler_def Let_def server_inv_ids distinct_map_filter)

lemma post_tasks_handler_created:
  assumes "post_tasks_handler now body s = (Response st (Some r), s')" and "task r = Some t"
  shows "task_id t = NEXT_ID s \<and> NEXT_ID s' = NEXT_ID s + 1"
  using assms
  by (auto simp: post_tasks_handler_def Let_def
           split: option.splits json_text.splits if_splits bool.splits)

lemma post_tasks_handler_ids:
  assumes "post_tasks_handler now body s = (resp, s')"
  shows "set (case resp of Response st (Some r) \<Rightarrow> (case task r of None \<Rightarrow> [] | Some t \<Rightarrow> [task_id t]) | _ \<Rightarrow> [])
           \<subseteq> {NEXT_ID s ..< NEXT_ID s'}"
    and "NEXT_ID s \<le> NEXT_ID s'"
  using assms
  by (auto simp: post_tasks_handler_def Let_def
           split: option.splits json_text.splits if_splits bool.splits)

lemma server_inv_push:
  "server_inv s \<Longrightarrow> task_id t = NEXT_ID s \<Longrightarrow>
   server_inv (s\<lparr>TASKS := TASKS s @ [t], NEXT_ID := Suc (NEXT_ID s)\<rparr>)"
  by (fastforce simp: server_inv_ids)

lemma server_inv_skip: "server_inv s \<Longrightarrow> server_inv (s\<lparr>NEXT_ID := Suc (NEXT_ID s)\<rparr>)"
  by (fastforce simp: server_inv_ids)

lemma post_tasks_handler_inv:
  "server_inv s \<Longrightarrow> server_inv (snd (post_tasks_handler now body s))"
  by (auto simp: post_tasks_handler_def Let_def server_inv_push server_inv_skip
           split: option.splits json_text.splits bool.splits)

lemma upt_append_upt:
  "a \<le> b \<Longrightarrow> b \<le> c \<Longrightarrow> [a ..< b] @ [b ..< c] = [a ..< (c::nat)]"
  using upt_add_eq_append [of a b "c - b"] by simp

lemma created_append:
  "\<forall>i \<in> set cs. i < length ts \<Longrightarrow>
   map (\<lambda>i. f ((ts @ [t]) ! i)) (cs @ [length ts]) = map (\<lambda>i. f (ts ! i)) cs @ [f t]"
  by (induction cs) (auto simp: nth_append)

lemma sync_item_step_ok:
  assumes "sync_ok n0 inv0 a"
  shows "sync_ok n0 inv0 (sync_item_step ni a)"
proof -
  let ?s = "acc_state a"
  let ?now = "fst ni" and ?item = "snd ni"
  let ?has_localId = "(case i_localId ?item of None \<Rightarrow> False | Some l \<Rightarrow> l \<noteq> [])"
  let ?has_id = "(case i_id ?item of None \<Rightarrow> False | Some n \<Rightarrow> n \<noteq> 0)"
  from assms have
    c: "map (\<lambda>i. task_id (TASKS ?s ! i)) (acc_created a) = [n0 ..< NEXT_ID ?s]" and
    b: "\<forall>i \<in> set (acc_created a). i < length (TASKS ?s)" and
    m: "n0 \<le> NEXT_ID ?s" and
    v: "inv0 \<longrightarrow> server_inv ?s"
    by (simp_all add: sync_ok_def)
  consider (create) "?has_localId \<and> \<not> ?has_id"
    | (update) i where "\<not> (?has_localId \<and> \<not> ?has_id)" "?has_id"
        "index_of (\<lambda>t. task_id t = the (i_id ?item)) (TASKS ?s) = Some i"
    | (skip) "\<not> (?has_localId \<and> \<not> ?has_id)"
        "\<not> ?has_id \<or> index_of (\<lambda>t. task_id t = the (i_id ?item)) (TASKS ?s) = None"
    by (cases "index_of (\<lambda>t. task_id t = the (i_id ?item)) (TASKS ?s)") auto
  then show ?thesis
  proof cases
    case create
    define newTask where "newTask =
      \<lparr>title = (case i_title ?item of
                  None \<Rightarrow> ''Sin t'' @ [CHR 0xED] @ ''tulo''
                | Some x \<Rightarrow> if x = [] then ''Sin t'' @ [CHR 0xED] @ ''tulo'' else x),
       description = (case i_description ?item of None \<Rightarrow> [] | Some x \<Rightarrow> x),
       completed = (case i_completed ?item of None \<Rightarrow> False | Some c \<Rightarrow> c),
       location = location_or_null (i_location ?item),
       photo = photo_or_null (i_photo ?item),
       createdAt = (case i_createdAt ?item of
                      None \<Rightarrow> ?now | Some c \<Rightarrow> if c = 0 then ?now else c),
       updatedAt = ?now, task_id = NEXT_ID ?s\<rparr>"
    have id: "task_id newTask = NEXT_ID ?s" by (simp add: newTask_def)
    have step: "sync_item_step ni a =
        a\<lparr>acc_state := ?s\<lparr>TASKS := TASKS ?s @ [newTask], NEXT_ID := NEXT_ID ?s + 1\<rparr>,
          acc_created := acc_created a @ [length (TASKS ?s)],
          acc_mapping := acc_mapping a @ [(the (i_localId ?item), NEXT_ID ?s)]\<rparr>"
      using create by (simp add: sync_item_step_def Let_def newTask_def)
    have "map (\<lambda>i. task_id ((TASKS ?s @ [newTask]) ! i)) (acc_created a @ [length (TASKS ?s)])
          = [n0 ..< Suc (NEXT_ID ?s)]"
      using created_append [OF b, of task_id newTask] c m id by simp
    moreover have "\<forall>i \<in> set (acc_created a @ [length (TASKS ?s)]). i < length (TASKS ?s @ [newTask])"
      using b by (auto simp: less_SucI)
    moreover have "inv0 \<longrightarrow> server_inv (?s\<lparr>TASKS := TASKS ?s @ [newTask], NEXT_ID := Suc (NEXT_ID ?s)\<rparr>)"
      using v id by (simp add: server_inv_push)
    ultimately show ?thesis
      using m by (simp add: step sync_ok_def)
  next
    case update
    from index_of_SomeD [OF update(3)] have i: "i < length (TASKS ?s)" by simp
    let ?ts = "(TASKS ?s)[i := sync_changes ?now ?item (TASKS ?s ! i)]"
    have ids: "map task_id ?ts = map task_id (TASKS ?s)"
      using i by (simp add: map_update_same task_id_sync_changes)
    have nth: "task_id (?ts ! j) = task_id (TASKS ?s ! j)" if "j < length (TASKS ?s)" for j
      using that ids by (metis length_list_update nth_map)
    have old: "map (\<lambda>j. task_id (?ts ! j)) (acc_created a)
               = map (\<lambda>j. task_id (TASKS ?s ! j)) (acc_created a)"
      using b nth by (simp cong: map_cong)
    have inv: "server_inv ?s \<Longrightarrow> server_inv (?s\<lparr>TASKS := ?ts\<rparr>)"
      using ids by (simp add: server_inv_ids del: set_map)
    show ?thesis
      using update c m v b old inv
      by (simp add: sync_item_step_def Let_def sync_ok_def)
  next
    case skip
    then show ?thesis
      using assms by (auto simp: sync_item_step_def Let_def)
  qed
qed

lemma sync_fold_ok:
  "sync_ok n0 inv0 a \<Longrightarrow> sync_ok n0 inv0 (foldl (\<lambda>a ni. sync_item_step ni a) a incoming)"
  by (induction incoming arbitrary: a) (simp_all add: sync_item_step_ok)

lemma sync_handler_ids:
  assumes "sync_handler incoming s = (r, s')"
  shows "map task_id (created r) = [NEXT_ID s ..< NEXT_ID s']"
    and "NEXT_ID s \<le> NEXT_ID s'"
    and "server_inv s \<Longrightarrow> server_inv s'"
proof -
  let ?a0 = "\<lparr>acc_state = s, acc_created = [], acc_updated = [], acc_mapping = []\<rparr>"
  have "sync_ok (NEXT_ID s) (server_inv s) ?a0" by (simp add: sync_ok_def)
  then have "sync_ok (NEXT_ID s) (server_inv s) (foldl (\<lambda>a ni. sync_item_step ni a) ?a0 incoming)"
    by (rule sync_fold_ok)
  with assms show "map task_id (created r) = [NEXT_ID s ..< NEXT_ID s']"
    and "NEXT_ID s \<le> NEXT_ID s'" and "server_inv s \<Longrightarrow> server_inv s'"
    by (auto simp: sync_handler_def Let_def sync_ok_def comp_def)
qed

lemma serve_ids:
  assumes "serve now req s = (ids, s')"
  shows "sorted_wrt (<) ids \<and> set ids \<subseteq> {NEXT_ID s ..< NEXT_ID s'} \<and> NEXT_ID s \<le> NEXT_ID s'
         \<and> (server_inv s \<longrightarrow> server_inv s')"
proof (cases req)
  case GetTasks
  with assms show ?thesis using get_tasks_handler_ids by auto
next
  case (PostTasks body)
  obtain resp s1 where h: "post_tasks_handler now body s = (resp, s1)" by fastforce
  with assms PostTasks have s1: "s' = s1" by (auto split: response.splits option.splits)
  from assms PostTasks h have ids:
    "ids = (case resp of Response st (Some r) \<Rightarrow> (case task r of None \<Rightarrow> [] | Some t \<Rightarrow> [task_id t]) | _ \<Rightarrow> [])"
    by (auto split: response.splits option.splits)
  then have "sorted_wrt (<) ids" by (auto split: response.splits option.splits)
  with ids post_tasks_handler_ids [OF h] post_tasks_handler_inv [of s now body] h s1
  show ?thesis by simp
next
  case (PutTask idp body)
  with assms show ?thesis
    by (auto simp: server_inv_ids put_task_handler_ids simp del: set_map)
next
  case (DeleteTask idp)
  with assms show ?thesis using delete_task_handler_ids by auto
next
  case DeleteAll
  with assms show ?thesis by (auto simp: delete_all_handler_def server_inv_def)
next
  case (PostSync incoming)
  obtain r s1 where h: "sync_handler incoming s = (r, s1)" by fastforce
  with assms PostSync show ?thesis using sync_handler_ids [OF h] by auto
qed

lemma serve_all_ids:
  "serve_all reqs s = (ids, s') \<Longrightarrow>
     sorted_wrt (<) ids \<and> set ids \<subseteq> {NEXT_ID s ..< NEXT_ID s'} \<and> NEXT_ID s \<le> NEXT_ID s'
     \<and> (server_inv s \<longrightarrow> server_inv s')"
proof (induction reqs arbitrary: s ids s')
  case Nil
  then show ?case by simp
next
  case (Cons nr reqs)
  obtain now req where nr: "nr = (now, req)" by (cases nr)
  obtain ids1 s1 where a: "serve now req s = (ids1, s1)" by fastforce
  obtain ids2 s2 where b: "serve_all reqs s1 = (ids2, s2)" by fastforce
  from Cons.prems nr a b have eq: "ids = ids1 @ ids2" "s' = s2" by simp_all
  from serve_ids [OF a] Cons.IH [OF b] have
    "sorted_wrt (<) (ids1 @ ids2)" and "set (ids1 @ ids2) \<subseteq> {NEXT_ID s ..< NEXT_ID s2}"
    and "NEXT_ID s \<le> NEXT_ID s2" and "server_inv s \<longrightarrow> server_inv s2"
    by (fastforce simp: sorted_wrt_append)+
  with eq show ?case by simp
qed

text \<open>
  C9. Ids the server assigns are pairwise distinct and strictly increasing. From any state
  in which every stored id is below \<open>NEXT_ID\<close> and no two stored tasks share one (the
  start-up state is such a state), after any sequence of requests to the task routes: the
  ids reported as created, by \<open>POST /api/tasks\<close> and by the create branch of
  \<open>POST /api/sync\<close> together, taken in the order of creation, increase strictly, so
  none repeats; each is a value \<open>NEXT_ID\<close> went through during the sequence; none is the
  id of a task that was already stored; and the store again satisfies the invariant.
  A single \<open>POST /api/tasks\<close> that creates a task gives it the current \<open>NEXT_ID\<close> and
  leaves \<open>NEXT_ID\<close> one higher, and the tasks one \<open>POST /api/sync\<close> creates get the
  values from the current \<open>NEXT_ID\<close> up to the new one. (A \<open>POST /api/tasks\<close> that throws
  in \<open>description.trim()\<close> has already taken its id: that id is skipped, never reused.)
\<close>

theorem server_ids_distinct_increasing:
  assumes "server_inv s" and "serve_all reqs s = (ids, s')"
  shows "sorted_wrt (<) ids \<and> distinct ids
         \<and> set ids \<subseteq> {NEXT_ID s ..< NEXT_ID s'} \<and> NEXT_ID s \<le> NEXT_ID s'
         \<and> (\<forall>i \<in> set ids. i \<notin> set (map task_id (TASKS s)))
         \<and> server_inv s'
         \<and> (\<forall>now body st r s1 t.
               post_tasks_handler now body s = (Response st (Some r), s1) \<and> task r = Some t
               \<longrightarrow> task_id t = NEXT_ID s \<and> NEXT_ID s1 = NEXT_ID s + 1)
         \<and> (\<forall>incoming r s1.
               sync_handler incoming s = (r, s1)
               \<longrightarrow> map task_id (created r) = [NEXT_ID s ..< NEXT_ID s1])"
proof -
  from serve_all_ids [OF assms(2)] assms(1) have
    sorted: "sorted_wrt (<) ids" and sub: "set ids \<subseteq> {NEXT_ID s ..< NEXT_ID s'}"
    and le: "NEXT_ID s \<le> NEXT_ID s'" and inv: "server_inv s'"
    by simp_all
  from sorted have dist: "distinct ids"
    by (simp add: strict_sorted_iff)
  have fresh: "\<forall>i \<in> set ids. i \<notin> set (map task_id (TASKS s))"
    using assms(1) sub by (fastforce simp: server_inv_ids)
  have one: "\<forall>now body st r s1 t.
               post_tasks_handler now body s = (Response st (Some r), s1) \<and> task r = Some t
               \<longrightarrow> task_id t = NEXT_ID s \<and> NEXT_ID s1 = NEXT_ID s + 1"
    using post_tasks_handler_created by blast
  have many: "\<forall>incoming r s1.
               sync_handler incoming s = (r, s1)
               \<longrightarrow> map task_id (created r) = [NEXT_ID s ..< NEXT_ID s1]"
    using sync_handler_ids(1) by blast
  from sorted dist sub le fresh inv one many show ?thesis by blast
qed

theorem server_ids_distinct_increasing_witness:
  "server_inv (init_server 9000000)
   \<and> fst (serve_all example_requests (init_server 9000000)) = [3, 5, 6]
   \<and> distinct (fst (serve_all example_requests (init_server 9000000)))
   \<and> sorted_wrt (<) (fst (serve_all example_requests (init_server 9000000)))
   \<and> server_inv (snd (serve_all example_requests (init_server 9000000)))"
proof -
  have inv: "server_inv (init_server 9000000)"
    by (simp add: init_server_def server_inv_def)
  have run: "serve_all example_requests (init_server 9000000)
             = (fst (serve_all example_requests (init_server 9000000)),
                snd (serve_all example_requests (init_server 9000000)))"
    by simp
  have ids: "fst (serve_all example_requests (init_server 9000000)) = [3, 5, 6]"
    by code_simp
  from server_ids_distinct_increasing [OF inv run] have
    "distinct (fst (serve_all example_requests (init_server 9000000)))"
    and "sorted_wrt (<) (fst (serve_all example_requests (init_server 9000000)))"
    and "server_inv (snd (serve_all example_requests (init_server 9000000)))"
    by blast+
  with ids inv show ?thesis by blast
qed

text \<open>
  C10, as amended. \<open>PUT /api/tasks/:id\<close> on a task that exists leaves this for every
  body: \<open>id\<close> and \<open>createdAt\<close> are unchanged, each of title, description, completed,
  location and photo keeps its value when the body does not have the property, and the
  other tasks, the length of the store and \<open>NEXT_ID\<close> are unchanged. When title and
  description are strings where the body has them, the answer is 200 with the task as it
  is stored afterwards, each property the body has takes the body's value (title and
  description trimmed), and \<open>updatedAt\<close> is the current time. When the body has a title
  or a description that is not a string, the handler throws in \<open>.trim()\<close>: the answer is
  500 and \<open>updatedAt\<close> is not set.
\<close>

theorem put_is_partial_update:
  assumes "find (\<lambda>u. Some (int (task_id u)) = idp) (TASKS s) = Some t"
  shows "\<exists>t'. find (\<lambda>u. Some (int (task_id u)) = idp) (TASKS (snd (put_task_handler now idp body s))) = Some t'
     \<and> task_id t' = task_id t \<and> createdAt t' = createdAt t
     \<and> (b_title body = None \<longrightarrow> title t' = title t)
     \<and> (b_description body = None \<longrightarrow> description t' = description t)
     \<and> (b_completed body = None \<longrightarrow> completed t' = completed t)
     \<and> (b_location body = None \<longrightarrow> location t' = location t)
     \<and> (b_photo body = None \<longrightarrow> photo t' = photo t)
     \<and> filter (\<lambda>u. Some (int (task_id u)) \<noteq> idp) (TASKS (snd (put_task_handler now idp body s)))
         = filter (\<lambda>u. Some (int (task_id u)) \<noteq> idp) (TASKS s)
     \<and> length (TASKS (snd (put_task_handler now idp body s))) = length (TASKS s)
     \<and> NEXT_ID (snd (put_task_handler now idp body s)) = NEXT_ID s
     \<and> (\<not> not_string (b_title body) \<and> \<not> not_string (b_description body) \<longrightarrow>
          fst (put_task_handler now idp body s) = Response 200 (Some \<lparr>ok = True, task = Some t'\<rparr>)
          \<and> title t' = (case b_title body of Some (JString x) \<Rightarrow> trim x | _ \<Rightarrow> title t)
          \<and> description t' = (case b_description body of Some (JString x) \<Rightarrow> trim x | _ \<Rightarrow> description t)
          \<and> completed t' = (case b_completed body of None \<Rightarrow> completed t | Some x \<Rightarrow> x)
          \<and> location t' = (case b_location body of None \<Rightarrow> location t | Some x \<Rightarrow> x)
          \<and> photo t' = (case b_photo body of None \<Rightarrow> photo t | Some x \<Rightarrow> x)
          \<and> updatedAt t' = now)
     \<and> (not_string (b_title body) \<or> not_string (b_description body) \<longrightarrow>
          fst (put_task_handler now idp body s) = Response 500 (Some \<lparr>ok = False, task = None\<rparr>)
          \<and> updatedAt t' = updatedAt t)"
proof -
  let ?P = "\<lambda>u. Some (int (task_id u)) = idp"
  from assms obtain i where i: "index_of ?P (TASKS s) = Some i" and ti: "TASKS s ! i = t"
    using find_Some_index_of by fastforce
  have P: "?P t" using index_of_SomeD [OF i] ti by simp
  have store: "find ?P ((TASKS s)[i := t']) = Some t'
        \<and> filter (\<lambda>u. \<not> ?P u) ((TASKS s)[i := t']) = filter (\<lambda>u. \<not> ?P u) (TASKS s)"
    if "task_id t' = task_id t" for t'
    using that P find_update_at_index [OF i, of t'] filter_update_at_index [OF i, of t'] by simp
  show ?thesis
  proof (cases "not_string (b_title body) \<or> not_string (b_description body)")
    case True
    from put_changes_throws [OF True, of now t] obtain t' where
      t': "put_changes now body t = Inl t'
        \<and> (b_title body = None \<longrightarrow> title t' = title t)
        \<and> description t' = description t \<and> completed t' = completed t
        \<and> location t' = location t \<and> photo t' = photo t
        \<and> task_id t' = task_id t \<and> createdAt t' = createdAt t \<and> updatedAt t' = updatedAt t" ..
    have res: "put_task_handler now idp body s
               = (Response 500 (Some \<lparr>ok = False, task = None\<rparr>), s\<lparr>TASKS := (TASKS s)[i := t']\<rparr>)"
      using i ti t' by (simp add: put_task_handler_def)
    have st: "task_id t' = task_id t" using t' by simp
    show ?thesis
      apply (rule exI [of _ t'])
      using True store [OF st] t' by (simp add: res)
  next
    case False
    then have ok: "\<not> not_string (b_title body)" "\<not> not_string (b_description body)" by simp_all
    from put_changes_completes [OF ok, of now t] obtain t' where
      t': "put_changes now body t = Inr t'
        \<and> title t' = (case b_title body of Some (JString x) \<Rightarrow> trim x | _ \<Rightarrow> title t)
        \<and> description t' = (case b_description body of Some (JString x) \<Rightarrow> trim x | _ \<Rightarrow> description t)
        \<and> completed t' = (case b_completed body of None \<Rightarrow> completed t | Some x \<Rightarrow> x)
        \<and> location t' = (case b_location body of None \<Rightarrow> location t | Some x \<Rightarrow> x)
        \<and> photo t' = (case b_photo body of None \<Rightarrow> photo t | Some x \<Rightarrow> x)
        \<and> task_id t' = task_id t \<and> createdAt t' = createdAt t \<and> updatedAt t' = now" ..
    have res: "put_task_handler now idp body s
               = (Response 200 (Some \<lparr>ok = True, task = Some t'\<rparr>), s\<lparr>TASKS := (TASKS s)[i := t']\<rparr>)"
      using i ti t' by (simp add: put_task_handler_def)
    have st: "task_id t' = task_id t" using t' by simp
    show ?thesis
      apply (rule exI [of _ t'])
      using ok store [OF st] t' by (simp add: res)
  qed
qed

theorem put_is_partial_update_witness:
  "find (\<lambda>u. Some (int (task_id u)) = Some 1) (TASKS (init_server 9000000))
     = Some (hd (TASKS (init_server 9000000)))
   \<and> \<not> not_string (b_title example_put_body) \<and> \<not> not_string (b_description example_put_body)
   \<and> fst (put_task_handler 9300000 (Some 1) example_put_body (init_server 9000000))
     = Response 200 (Some \<lparr>ok = True,
         task = Some ((hd (TASKS (init_server 9000000)))\<lparr>completed := True, updatedAt := 9300000\<rparr>)\<rparr>)
   \<and> not_string (b_description example_null_body)
   \<and> fst (put_task_handler 9300000 (Some 1) example_null_body (init_server 9000000))
     = Response 500 (Some \<lparr>ok = False, task = None\<rparr>)"
proof -
  have h: "find (\<lambda>u. Some (int (task_id u)) = Some 1) (TASKS (init_server 9000000))
           = Some (hd (TASKS (init_server 9000000)))"
    by (simp add: init_server_def)
  have b: "\<not> not_string (b_title example_put_body)" "\<not> not_string (b_description example_put_body)"
    "not_string (b_description example_null_body)"
    by (simp_all add: example_put_body_def example_null_body_def)
  have r: "fst (put_task_handler 9300000 (Some 1) example_put_body (init_server 9000000))
     = Response 200 (Some \<lparr>ok = True,
         task = Some ((hd (TASKS (init_server 9000000)))\<lparr>completed := True, updatedAt := 9300000\<rparr>)\<rparr>)"
    by (simp add: put_task_handler_def init_server_def example_put_body_def put_changes_def Let_def)
  from put_is_partial_update [OF h, of 9300000 example_null_body] b(3)
  have "fst (put_task_handler 9300000 (Some 1) example_null_body (init_server 9000000))
     = Response 500 (Some \<lparr>ok = False, task = None\<rparr>)"
    by blast
  with put_is_partial_update [OF h, of 9300000 example_put_body] h b r show ?thesis
    by blast
qed

text \<open>
  C10 as stated fails: \<open>PUT /api/tasks/1\<close> with \<open>{"title": "x", "description": null}\<close>
  changes the title and then throws; \<open>updatedAt\<close> keeps its old value.
\<close>

theorem put_always_stamps_counterexample:
  "fst (put_task_handler 9300000 (Some 1) example_null_body (init_server 9000000))
     = Response 500 (Some \<lparr>ok = False, task = None\<rparr>)
   \<and> map title (TASKS (snd (put_task_handler 9300000 (Some 1) example_null_body
                               (init_server 9000000))))
       = [''x'', ''Enviar reporte'']
   \<and> map updatedAt (TASKS (snd (put_task_handler 9300000 (Some 1) example_null_body
                                   (init_server 9000000))))
       = [5400000, 1800000]
   \<and> map updatedAt (TASKS (init_server 9000000)) = [5400000, 1800000]"
  by code_simp

section \<open>The client: syncPendingTasks\<close>

subsection \<open>Keys\<close>

lemma digits_value_snoc: "digits_value (ds @ [c]) = 10 * digits_value ds + digit_val c"
  by (simp add: digits_value_def)

lemma digit_val_digit_char: "d < 10 \<Longrightarrow> digit_val (digit_char d) = d"
  by (simp add: digit_val_def digit_char_def)

lemma digits_value_toString: "digits_value (toString n) = n"
proof (induction n rule: toString.induct)
  case (1 n)
  show ?case
  proof (cases "n < 10")
    case True
    then show ?thesis
      by (simp add: toString.simps [of n] digits_value_def digit_val_digit_char)
  next
    case False
    with "1" show ?thesis
      by (simp add: toString.simps [of n] digits_value_snoc digit_val_digit_char)
  qed
qed

lemma toString_inject: "toString m = toString n \<Longrightarrow> m = n"
  using digits_value_toString by metis

lemma server_clientId_inject [simp]: "server_clientId m = server_clientId n \<longleftrightarrow> m = n"
  by (auto simp: server_clientId_def dest: toString_inject)

lemma server_clientId_prefix [simp]: "startsWith (server_clientId n) ''server_''"
  by (simp add: server_clientId_def startsWith_def)

lemma local_not_server: "startsWith k ''local_'' \<Longrightarrow> \<not> startsWith k ''server_''"
  by (auto simp: startsWith_def prefix_def)

lemma local_neq_server_clientId: "startsWith k ''local_'' \<Longrightarrow> k \<noteq> server_clientId n"
  using local_not_server server_clientId_prefix by blast

text \<open>The id phase 2 reads back from a key is the id the key was built from.\<close>

lemma is_digit_digit_char: "d < 10 \<Longrightarrow> is_digit (digit_char d)"
  by (simp add: is_digit_def digit_char_def)

lemma digit_char_not_sign:
  "d < 10 \<Longrightarrow> digit_char d \<noteq> CHR ''_'' \<and> digit_char d \<noteq> CHR ''-'' \<and> digit_char d \<noteq> CHR ''+''"
  using is_digit_digit_char [of d] by (auto simp: is_digit_def)

lemma toString_digits: "c \<in> set (toString n) \<Longrightarrow> is_digit c \<and> c \<noteq> CHR ''_''"
proof (induction n rule: toString.induct)
  case (1 n)
  show ?case
  proof (cases "n < 10")
    case True
    with "1.prems" show ?thesis
      using is_digit_digit_char [of n] digit_char_not_sign [of n]
      by (simp add: toString.simps [of n])
  next
    case False
    with "1.prems" "1.IH" show ?thesis
      using is_digit_digit_char [of "n mod 10"] digit_char_not_sign [of "n mod 10"]
      by (auto simp: toString.simps [of n])
  qed
qed

lemma toString_nonempty: "toString n \<noteq> []"
  by (subst toString.simps) simp

lemma split_on_absent: "c \<notin> set xs \<Longrightarrow> split_on c xs = [xs]"
  by (induction xs) auto

lemma parseInt_toString: "parseInt (toString n) = Some (int n)"
proof -
  have all: "\<forall>c \<in> set (toString n). is_digit c" using toString_digits by blast
  then have tw: "takeWhile is_digit (toString n) = toString n" by (simp add: takeWhile_eq_all_conv)
  have "hd (toString n) \<in> set (toString n)" using toString_nonempty by simp
  then have "is_digit (hd (toString n))" using all by blast
  then have "hd (toString n) \<noteq> CHR ''-''" "hd (toString n) \<noteq> CHR ''+''"
    by (auto simp: is_digit_def)
  then show ?thesis
    using toString_nonempty [of n]
    by (simp add: parseInt_def Let_def tw digits_value_toString)
qed

lemma serverId_of_server_clientId: "serverId_of (server_clientId n) = Some (int n)"
proof -
  have "CHR ''_'' \<notin> set (toString n)" using toString_digits by blast
  then have "split_on (CHR ''_'') (server_clientId n) = [''server'', toString n]"
    by (simp add: server_clientId_def split_on_absent)
  then show ?thesis by (simp add: serverId_of_def parseInt_toString)
qed

subsection \<open>The state record\<close>

lemma sent_simps [simp]:
  "idb (sent req r w) = idb w"
  "remote (sent req r w) = r"
  "fetches (sent req r w) = fetches w @ [req]"
  "ticks (sent req r w) = ticks w"
  by (simp_all add: sent_def)

lemma put_clean_simps [simp]:
  "idb (put_clean e t w) = putTaskLocalClean (date_now e (ticks w)) t (idb w)"
  "remote (put_clean e t w) = remote w"
  "fetches (put_clean e t w) = fetches w"
  by (simp_all add: put_clean_def)

subsection \<open>Loops over a concatenation\<close>

lemma create_loop_append:
  "create_loop e (xs @ ys) n w =
     (case create_loop e xs n w of
        (Inl err, w1) \<Rightarrow> (Inl err, w1)
      | (Inr n1, w1) \<Rightarrow> create_loop e ys n1 w1)"
  by (induction xs arbitrary: n w) (auto split: prod.splits sum.splits)

lemma update_loop_append:
  "update_loop e (xs @ ys) n w =
     (case update_loop e xs n w of
        (Inl err, w1) \<Rightarrow> (Inl err, w1)
      | (Inr n1, w1) \<Rightarrow> update_loop e ys n1 w1)"
  by (induction xs arbitrary: n w) (auto split: prod.splits sum.splits)

subsection \<open>What each iteration does to the store\<close>

text \<open>The three ways an iteration can leave the store.\<close>

lemma create_iteration_store:
  "idb (snd (create_iteration e t w)) = idb w
   \<or> (\<exists>srv. idb (snd (create_iteration e t w)) = replaceLocalWithServer (clientId t) srv (idb w))"
  by (auto simp: create_iteration_def Let_def split: prod.splits sum.splits option.splits)

lemma update_iteration_store:
  "idb (snd (update_iteration e t w)) = idb w
   \<or> (deleted t \<and> idb (snd (update_iteration e t w)) = store_delete (clientId t) (idb w))
   \<or> (\<not> deleted t \<and> (\<exists>now. idb (snd (update_iteration e t w)) = putTaskLocalClean now t (idb w)))"
  by (auto simp: update_iteration_def Let_def split: prod.splits sum.splits response.splits)


subsection \<open>Properties of the store that every later step keeps\<close>

lemma replaceLocalWithServer_preserves:
  assumes del: "\<And>k s. startsWith k ''local_'' \<Longrightarrow> P s \<Longrightarrow> P (store_delete k s)"
      and put: "\<And>t s. startsWith (clientId t) ''server_'' \<Longrightarrow> \<not> dirty t \<Longrightarrow> P s \<Longrightarrow> P (store_put t s)"
      and "startsWith k ''local_''" and "P s"
  shows "P (replaceLocalWithServer k srv s)"
  unfolding replaceLocalWithServer_def Let_def
  by (rule put) (simp_all add: del assms(3,4) with_clientId_def)

lemma putTaskLocalClean_preserves:
  assumes put: "\<And>t s. startsWith (clientId t) ''server_'' \<Longrightarrow> \<not> dirty t \<Longrightarrow> P s \<Longrightarrow> P (store_put t s)"
      and "startsWith (clientId t) ''server_''" and "P s"
  shows "P (putTaskLocalClean now t s)"
  unfolding putTaskLocalClean_def
  by (rule put) (simp_all add: assms(2,3))

lemma create_loop_preserves:
  assumes del: "\<And>k s. startsWith k ''local_'' \<Longrightarrow> P s \<Longrightarrow> P (store_delete k s)"
      and put: "\<And>t s. startsWith (clientId t) ''server_'' \<Longrightarrow> \<not> dirty t \<Longrightarrow> P s \<Longrightarrow> P (store_put t s)"
      and "\<forall>t \<in> set ts. startsWith (clientId t) ''local_''" and "P (idb w)"
  shows "P (idb (snd (create_loop e ts n w)))"
  using assms(3,4)
proof (induction ts arbitrary: n w)
  case Nil
  then show ?case by simp
next
  case (Cons t ts)
  have step: "P (idb (snd (create_iteration e t w)))"
    using create_iteration_store [of e t w] Cons.prems
      replaceLocalWithServer_preserves [of P, OF del put]
    by auto
  obtain res w1 where it: "create_iteration e t w = (res, w1)" by fastforce
  with step have "P (idb w1)" by simp
  with Cons.IH [of w1] Cons.prems(1) have "P (idb (snd (create_loop e ts m w1)))" for m
    by simp
  with it \<open>P (idb w1)\<close> show ?case by (cases res) simp_all
qed

lemma update_loop_preserves:
  assumes put: "\<And>t s. startsWith (clientId t) ''server_'' \<Longrightarrow> \<not> dirty t \<Longrightarrow> P s \<Longrightarrow> P (store_put t s)"
      and "\<forall>t \<in> set ts. \<not> deleted t \<and> startsWith (clientId t) ''server_''" and "P (idb w)"
  shows "P (idb (snd (update_loop e ts n w)))"
  using assms(2,3)
proof (induction ts arbitrary: n w)
  case Nil
  then show ?case by simp
next
  case (Cons t ts)
  have step: "P (idb (snd (update_iteration e t w)))"
    using update_iteration_store [of e t w] Cons.prems
      putTaskLocalClean_preserves [of P, OF put]
    by auto
  obtain res w1 where it: "update_iteration e t w = (res, w1)" by fastforce
  with step have "P (idb w1)" by simp
  with Cons.IH [of w1] Cons.prems(1) have "P (idb (snd (update_loop e ts m w1)))" for m
    by simp
  with it \<open>P (idb w1)\<close> show ?case by (cases res) simp_all
qed

lemma merge_iteration_preserves:
  assumes put: "\<And>t s. startsWith (clientId t) ''server_'' \<Longrightarrow> \<not> dirty t \<Longrightarrow> P s \<Longrightarrow> P (store_put t s)"
      and "P (idb w)"
  shows "P (idb (merge_iteration e r w))"
  using assms(2)
  by (auto simp: merge_iteration_def Let_def putTaskLocalClean_def with_clientId_def intro!: put)

lemma merge_loop_preserves:
  assumes put: "\<And>t s. startsWith (clientId t) ''server_'' \<Longrightarrow> \<not> dirty t \<Longrightarrow> P s \<Longrightarrow> P (store_put t s)"
      and "P (idb w)"
  shows "P (idb (merge_loop e rs w))"
  using assms(2)
  by (induction rs arbitrary: w) (simp_all add: merge_iteration_preserves [of P, OF put])

lemma sync_pull_preserves:
  assumes put: "\<And>t s. startsWith (clientId t) ''server_'' \<Longrightarrow> \<not> dirty t \<Longrightarrow> P s \<Longrightarrow> P (store_put t s)"
      and "P (idb w)"
  shows "P (idb (sync_pull e w))"
  using assms(2)
  by (auto simp: sync_pull_def Let_def merge_loop_preserves [of P, OF put]
           split: prod.splits sum.splits option.splits)

lemma sync_updates_preserves:
  assumes put: "\<And>t s. startsWith (clientId t) ''server_'' \<Longrightarrow> \<not> dirty t \<Longrightarrow> P s \<Longrightarrow> P (store_put t s)"
      and "P (idb w)"
  shows "P (idb (snd (sync_updates e n w)))"
  unfolding sync_updates_def Let_def
  by (rule update_loop_preserves [of P, OF put]) (simp_all add: set_getAllTasksLocal assms(2))

lemma sync_creates_preserves:
  assumes del: "\<And>k s. startsWith k ''local_'' \<Longrightarrow> P s \<Longrightarrow> P (store_delete k s)"
      and put: "\<And>t s. startsWith (clientId t) ''server_'' \<Longrightarrow> \<not> dirty t \<Longrightarrow> P s \<Longrightarrow> P (store_put t s)"
      and "P (idb w)"
  shows "P (idb (snd (sync_creates e w)))"
  unfolding sync_creates_def Let_def
  by (rule create_loop_preserves [of P, OF del put]) (simp_all add: assms(3))

text \<open>Once phase 1 is over, whatever it has established of this kind holds at the end.\<close>

lemma sync_after_creates:
  assumes put: "\<And>t s. startsWith (clientId t) ''server_'' \<Longrightarrow> \<not> dirty t \<Longrightarrow> P s \<Longrightarrow> P (store_put t s)"
      and "onLine e" and "P (idb (snd (sync_creates e w)))"
  shows "P (idb (snd (syncPendingTasks e w)))"
proof -
  obtain res1 w1 where c: "sync_creates e w = (res1, w1)" by fastforce
  with assms(3) have p1: "P (idb w1)" by simp
  show ?thesis
  proof (cases res1)
    case (Inl err)
    with c p1 assms(2) show ?thesis by (simp add: syncPendingTasks_def)
  next
    case (Inr n1)
    obtain res2 w2 where u: "sync_updates e n1 w1 = (res2, w2)" by fastforce
    from sync_updates_preserves [of P, OF put p1, of e n1] u have p2: "P (idb w2)" by simp
    show ?thesis
    proof (cases res2)
      case (Inl err)
      with c u Inr p2 assms(2) show ?thesis by (simp add: syncPendingTasks_def)
    next
      case (Inr n2)
      with c u \<open>res1 = Inr n1\<close> assms(2) sync_pull_preserves [of P, OF put p2, of e]
      show ?thesis by (simp add: syncPendingTasks_def)
    qed
  qed
qed

lemma wf_store_sync: "onLine e \<Longrightarrow> wf_store (idb w) \<Longrightarrow> wf_store (idb (snd (syncPendingTasks e w)))"
  by (rule sync_after_creates [of wf_store])
     (auto intro!: sync_creates_preserves [of wf_store] simp: wf_store_put wf_store_delete)

subsection \<open>Keys an iteration does not touch\<close>

lemma store_get_replaceLocalWithServer:
  "k \<noteq> k' \<Longrightarrow> \<not> startsWith k ''server_'' \<Longrightarrow>
   store_get k (replaceLocalWithServer k' srv s) = store_get k s"
  using server_clientId_prefix [of "task_id srv"]
  by (auto simp: replaceLocalWithServer_def Let_def with_clientId_def store_get_put store_get_delete)

lemma create_loop_frame:
  "k \<notin> clientId ` set ts \<Longrightarrow> \<not> startsWith k ''server_'' \<Longrightarrow>
   store_get k (idb (snd (create_loop e ts n w))) = store_get k (idb w)"
proof (induction ts arbitrary: n w)
  case Nil
  then show ?case by simp
next
  case (Cons t ts)
  have step: "store_get k (idb (snd (create_iteration e t w))) = store_get k (idb w)"
    using create_iteration_store [of e t w] Cons.prems
    by (auto simp: store_get_replaceLocalWithServer)
  obtain res w1 where it: "create_iteration e t w = (res, w1)" by fastforce
  with step have s1: "store_get k (idb w1) = store_get k (idb w)" by simp
  from Cons.IH [of _ w1] Cons.prems
  have "store_get k (idb (snd (create_loop e ts m w1))) = store_get k (idb w1)" for m by simp
  with it s1 show ?case by (cases res) simp_all
qed

lemma update_loop_frame:
  "k \<notin> clientId ` set ts \<Longrightarrow>
   store_get k (idb (snd (update_loop e ts n w))) = store_get k (idb w)"
proof (induction ts arbitrary: n w)
  case Nil
  then show ?case by simp
next
  case (Cons t ts)
  have step: "store_get k (idb (snd (update_iteration e t w))) = store_get k (idb w)"
    using update_iteration_store [of e t w] Cons.prems
    by (auto simp: putTaskLocalClean_def store_get_put store_get_delete)
  obtain res w1 where it: "update_iteration e t w = (res, w1)" by fastforce
  with step have s1: "store_get k (idb w1) = store_get k (idb w)" by simp
  from Cons.IH [of _ w1] Cons.prems
  have "store_get k (idb (snd (update_loop e ts m w1))) = store_get k (idb w1)" for m by simp
  with it s1 show ?case by (cases res) simp_all
qed


subsection \<open>Requests sent by completed iterations\<close>

lemma create_iteration_fetches:
  "fetches (snd (create_iteration e t w)) = fetches w @ [POST_tasks (body_of t)]"
  by (auto simp: create_iteration_def Let_def split: prod.splits sum.splits option.splits)

lemma create_loop_fetches:
  "create_loop e ts n w = (Inr m, w') \<Longrightarrow>
   fetches w' = fetches w @ map (\<lambda>t. POST_tasks (body_of t)) ts"
proof (induction ts arbitrary: n w)
  case Nil
  then show ?case by simp
next
  case (Cons t ts)
  obtain res w1 where it: "create_iteration e t w = (res, w1)" by fastforce
  with Cons.prems obtain k where k: "res = Inr k" and rest: "create_loop e ts (n + k) w1 = (Inr m, w')"
    by (cases res) auto
  from create_iteration_fetches [of e t w] it
  have "fetches w1 = fetches w @ [POST_tasks (body_of t)]" by simp
  with Cons.IH [OF rest] show ?case by simp
qed

lemma create_iteration_fails:
  "fetch_json (fst (post_tasks e (body_of t) (remote w))) = Inl err \<Longrightarrow>
   create_iteration e t w
     = (Inl err, sent (POST_tasks (body_of t)) (snd (post_tasks e (body_of t) (remote w))) w)"
  by (auto simp: create_iteration_def Let_def split: prod.splits)

lemma create_iteration_succeeds:
  "fetch_json (fst (post_tasks e (body_of t) (remote w))) = Inr d \<Longrightarrow> ok d \<Longrightarrow>
   task d = Some srv \<Longrightarrow>
   create_iteration e t w
     = (Inr 1, (sent (POST_tasks (body_of t)) (snd (post_tasks e (body_of t) (remote w))) w)
                 \<lparr>idb := replaceLocalWithServer (clientId t) srv (idb w)\<rparr>)"
  by (auto simp: create_iteration_def Let_def split: prod.splits)

lemma update_iteration_fails:
  "\<not> deleted t \<Longrightarrow> dirty t \<Longrightarrow>
   fetch_json (fst (put_task e (serverId_of (clientId t)) (body_of t) (remote w))) = Inl err \<Longrightarrow>
   update_iteration e t w
     = (Inl err, sent (PUT_task (serverId_of (clientId t)) (body_of t))
                   (snd (put_task e (serverId_of (clientId t)) (body_of t) (remote w))) w)"
  by (auto simp: update_iteration_def Let_def split: prod.splits)

lemma snapshot_local:
  assumes "filter (\<lambda>t. \<not> deleted t \<and> startsWith (clientId t) ''local_'') (getAllTasksLocal s)
           = pre @ A # post"
  shows "\<forall>t \<in> set (pre @ A # post). startsWith (clientId t) ''local_'' \<and> t \<in> set s"
proof -
  have "set (pre @ A # post) \<subseteq> {t \<in> set s. startsWith (clientId t) ''local_''}"
    unfolding assms [symmetric] by (auto simp: set_getAllTasksLocal)
  then show ?thesis by blast
qed

lemma snapshot_server:
  assumes "filter (\<lambda>t. startsWith (clientId t) ''server_'') (getAllTasksLocal s) = pre @ A # post"
  shows "\<forall>t \<in> set (pre @ A # post). startsWith (clientId t) ''server_'' \<and> \<not> deleted t \<and> t \<in> set s"
proof -
  have "set (pre @ A # post) \<subseteq> {t \<in> set s. startsWith (clientId t) ''server_'' \<and> \<not> deleted t}"
    unfolding assms [symmetric] by (auto simp: set_getAllTasksLocal)
  then show ?thesis by blast
qed

lemma snapshot_distinct:
  assumes "wf_store s" and "filter Q (getAllTasksLocal s) = pre @ A # post"
  shows "clientId A \<notin> clientId ` set pre"
proof -
  have "distinct (map clientId (filter Q (getAllTasksLocal s)))"
    using distinct_getAllTasksLocal [OF assms(1)] by (simp add: distinct_map_filter)
  then show ?thesis unfolding assms(2) by auto
qed

subsection \<open>Phase 1: a create that fails\<close>

text \<open>
  C4. Let the tasks phase 1 iterates over be \<open>pre @ A # post\<close>, let the iterations for
  \<open>pre\<close> end normally, and let the create request for \<open>A\<close> fail (the fetch is rejected,
  the status is not 2xx, or the body cannot be read). Then \<open>syncPendingTasks\<close> throws
  that error; the requests it has sent are the creates for \<open>pre\<close> and for \<open>A\<close> and
  nothing else, so no create is attempted for a task of \<open>post\<close> and phases 2 and 3 do not
  run; the store is as the iterations for \<open>pre\<close> left it, and \<open>A\<close> is in it under its
  \<open>local_\<close> key exactly as before, dirty flag included.
\<close>

theorem create_failure_stops_sync:
  assumes "onLine e" and "wf_store (idb w)"
    and snap: "filter (\<lambda>t. \<not> deleted t \<and> startsWith (clientId t) ''local_'')
                 (getAllTasksLocal (idb w)) = pre @ A # post"
    and before: "create_loop e pre 0 w = (Inr n1, w1)"
    and fails: "fetch_json (fst (post_tasks e (body_of A) (remote w1))) = Inl err"
  shows "fst (syncPendingTasks e w) = Inl err
       \<and> fetches (snd (syncPendingTasks e w))
           = fetches w @ map (\<lambda>t. POST_tasks (body_of t)) (pre @ [A])
       \<and> idb (snd (syncPendingTasks e w)) = idb w1
       \<and> store_get (clientId A) (idb (snd (syncPendingTasks e w))) = Some A
       \<and> startsWith (clientId A) ''local_''"
proof -
  let ?w2 = "sent (POST_tasks (body_of A)) (snd (post_tasks e (body_of A) (remote w1))) w1"
  have "create_loop e (pre @ A # post) 0 w = (Inl err, ?w2)"
    using before create_iteration_fails [OF fails]
    by (simp add: create_loop_append)
  then have sync: "syncPendingTasks e w = (Inl err, ?w2)"
    using assms(1) snap by (simp add: syncPendingTasks_def sync_creates_def)
  have loc: "startsWith (clientId A) ''local_''" and mem: "A \<in> set (idb w)"
    using snapshot_local [OF snap] by simp_all
  have "clientId A \<notin> clientId ` set pre"
    using snapshot_distinct [OF assms(2) snap] .
  then have "store_get (clientId A) (idb (snd (create_loop e pre 0 w))) = store_get (clientId A) (idb w)"
    using loc by (intro create_loop_frame) (auto dest: local_not_server)
  with before have "store_get (clientId A) (idb w1) = Some A"
    using store_get_mem [OF assms(2) mem] by simp
  with sync loc create_loop_fetches [OF before] show ?thesis by simp
qed

theorem create_failure_stops_sync_witness:
  "fst (syncPendingTasks (dead_env example_clock)
          (dead_world [example_local, example_local2, example_clean])) = Inl FetchFailed
   \<and> fetches (snd (syncPendingTasks (dead_env example_clock)
                      (dead_world [example_local, example_local2, example_clean])))
       = [POST_tasks (body_of example_local2)]
   \<and> store_get (clientId example_local2)
        (idb (snd (syncPendingTasks (dead_env example_clock)
                     (dead_world [example_local, example_local2, example_clean]))))
       = Some example_local2"
proof -
  let ?e = "dead_env example_clock"
  let ?w = "dead_world [example_local, example_local2, example_clean]"
  have on: "onLine ?e" by (simp add: dead_env_def)
  have wf: "wf_store (idb ?w)" by code_simp
  have snap: "filter (\<lambda>t. \<not> deleted t \<and> startsWith (clientId t) ''local_'')
                (getAllTasksLocal (idb ?w)) = [] @ example_local2 # [example_local]"
    by code_simp
  have before: "create_loop ?e [] 0 ?w = (Inr 0, ?w)" by simp
  have fails: "fetch_json (fst (post_tasks ?e (body_of example_local2) (remote ?w))) = Inl FetchFailed"
    by (simp add: dead_env_def fetch_json_def)
  have log: "fetches ?w @ map (\<lambda>t. POST_tasks (body_of t)) ([] @ [example_local2])
             = [POST_tasks (body_of example_local2)]"
    by (simp add: dead_world_def)
  from create_failure_stops_sync [OF on wf snap before fails] show ?thesis
    unfolding log by blast
qed

subsection \<open>Phase 1: a create that succeeds\<close>

text \<open>
  C2. Let the tasks phase 1 iterates over be \<open>pre @ A # post\<close> (each has a \<open>local_\<close> key
  and is not deleted), let the iterations for \<open>pre\<close> end normally, and let the create
  request for \<open>A\<close> succeed: a 2xx response whose body has \<open>ok\<close> and the created task
  \<open>srv\<close>. Then, however the rest of the run goes, the store at the end has no object
  under \<open>A\<close>'s temporary key and has an object under \<open>server_<id of srv>\<close> that is not
  dirty.
\<close>

theorem create_success_remaps:
  assumes "onLine e"
    and snap: "filter (\<lambda>t. \<not> deleted t \<and> startsWith (clientId t) ''local_'')
                 (getAllTasksLocal (idb w)) = pre @ A # post"
    and before: "create_loop e pre 0 w = (Inr n1, w1)"
    and succeeds: "fetch_json (fst (post_tasks e (body_of A) (remote w1))) = Inr d"
                  "ok d" "task d = Some srv"
  shows "store_get (clientId A) (idb (snd (syncPendingTasks e w))) = None
       \<and> (\<exists>r. store_get (server_clientId (task_id srv)) (idb (snd (syncPendingTasks e w))) = Some r
              \<and> clientId r = server_clientId (task_id srv) \<and> \<not> dirty r)"
proof -
  let ?k = "clientId A" and ?key = "server_clientId (task_id srv)"
  let ?P = "\<lambda>s. store_get ?k s = None \<and> (\<exists>r. store_get ?key s = Some r \<and> \<not> dirty r)"
  have loc: "startsWith ?k ''local_''" and locs: "\<forall>t \<in> set post. startsWith (clientId t) ''local_''"
    using snapshot_local [OF snap] by simp_all
  have del: "?P (store_delete k s)" if "startsWith k ''local_''" "?P s" for k s
    using that local_neq_server_clientId [of k "task_id srv"] by (auto simp: store_get_delete)
  have put: "?P (store_put t s)" if "startsWith (clientId t) ''server_''" "\<not> dirty t" "?P s" for t s
    using that loc local_not_server [of ?k] by (auto simp: store_get_put)
  let ?w2 = "(sent (POST_tasks (body_of A)) (snd (post_tasks e (body_of A) (remote w1))) w1)
               \<lparr>idb := replaceLocalWithServer ?k srv (idb w1)\<rparr>"
  have now: "?P (idb ?w2)"
    using local_neq_server_clientId [OF loc, of "task_id srv"]
    by (simp add: replaceLocalWithServer_def Let_def with_clientId_def store_get_put store_get_delete)
  have "sync_creates e w = create_loop e post (n1 + 1) ?w2"
    using snap before create_iteration_succeeds [OF succeeds]
    by (simp add: sync_creates_def create_loop_append)
  moreover have "?P (idb (snd (create_loop e post (n1 + 1) ?w2)))"
    using create_loop_preserves [of ?P post ?w2 e "n1 + 1"] del put locs now by blast
  ultimately have "?P (idb (snd (sync_creates e w)))" by simp
  then have "?P (idb (snd (syncPendingTasks e w)))"
    using sync_after_creates [of ?P e w] put assms(1) by blast
  then show ?thesis by (auto dest: store_get_Some)
qed

theorem create_success_remaps_witness:
  "store_get (clientId example_local)
     (idb (snd (syncPendingTasks example_env
                  (example_world [example_local, example_clean, example_clean2])))) = None
   \<and> (\<exists>r. store_get (server_clientId 3)
              (idb (snd (syncPendingTasks example_env
                           (example_world [example_local, example_clean, example_clean2])))) = Some r
          \<and> clientId r = server_clientId 3 \<and> \<not> dirty r)"
proof -
  let ?w = "example_world [example_local, example_clean, example_clean2]"
  have on: "onLine example_env" by (simp add: example_env_def server_env_def)
  have snap: "filter (\<lambda>t. \<not> deleted t \<and> startsWith (clientId t) ''local_'')
                (getAllTasksLocal (idb ?w)) = [] @ example_local # []"
    by code_simp
  have before: "create_loop example_env [] 0 ?w = (Inr 0, ?w)" by simp
  have ok1: "fetch_json (fst (post_tasks example_env (body_of example_local) (remote ?w)))
             = Inr \<lparr>ok = True, task = Some example_created\<rparr>"
    by code_simp
  have ok2: "ok \<lparr>ok = True, task = Some example_created\<rparr>" by simp
  have ok3: "task \<lparr>ok = True, task = Some example_created\<rparr> = Some example_created" by simp
  have id: "task_id example_created = 3" by (simp add: example_created_def)
  from create_success_remaps [OF on snap before ok1 ok2 ok3] id show ?thesis by simp
qed

subsection \<open>Phase 2: an update of a task the server does not have\<close>

text \<open>
  C7, as amended. Let phase 1 end normally, let the tasks phase 2 iterates over be
  \<open>pre @ A # post\<close>, let the iterations for \<open>pre\<close> end normally, let \<open>A\<close> be dirty, and
  let the server answer the update of \<open>A\<close> with status 404. Then \<open>syncPendingTasks\<close>
  throws \<open>HTTP 404\<close>; that request is the last one sent; the store is not touched by the
  failed iteration, and \<open>A\<close> is still in it, unchanged and dirty: it is not purged.
\<close>

theorem update_not_found_stops_sync:
  assumes "onLine e" and "wf_store (idb w)"
    and creates: "sync_creates e w = (Inr n0, w0)"
    and snap: "filter (\<lambda>t. startsWith (clientId t) ''server_'') (getAllTasksLocal (idb w0))
                 = pre @ A # post"
    and before: "update_loop e pre n0 w0 = (Inr n1, w1)"
    and "dirty A"
    and nf: "fst (put_task e (serverId_of (clientId A)) (body_of A) (remote w1)) = Response 404 b"
  shows "fst (syncPendingTasks e w) = Inl (HttpError 404)
       \<and> store_get (clientId A) (idb (snd (syncPendingTasks e w))) = Some A
       \<and> idb (snd (syncPendingTasks e w)) = idb w1
       \<and> fetches (snd (syncPendingTasks e w))
           = fetches w1 @ [PUT_task (serverId_of (clientId A)) (body_of A)]"
proof -
  let ?req = "PUT_task (serverId_of (clientId A)) (body_of A)"
  let ?w2 = "sent ?req (snd (put_task e (serverId_of (clientId A)) (body_of A) (remote w1))) w1"
  have A: "\<not> deleted A" "A \<in> set (idb w0)"
    using snapshot_server [OF snap] by simp_all
  have err: "fetch_json (fst (put_task e (serverId_of (clientId A)) (body_of A) (remote w1)))
             = Inl (HttpError 404)"
    by (simp add: nf fetch_json_def response_ok_def)
  have "update_loop e (pre @ A # post) n0 w0 = (Inl (HttpError 404), ?w2)"
    using before update_iteration_fails [OF A(1) \<open>dirty A\<close> err]
    by (simp add: update_loop_append)
  then have sync: "syncPendingTasks e w = (Inl (HttpError 404), ?w2)"
    using assms(1) creates snap by (simp add: syncPendingTasks_def sync_updates_def)
  have wf0: "wf_store (idb w0)"
    using sync_creates_preserves [of wf_store w e] creates assms(2)
    by (simp add: wf_store_put wf_store_delete)
  have "clientId A \<notin> clientId ` set pre"
    using snapshot_distinct [OF wf0 snap] .
  then have "store_get (clientId A) (idb (snd (update_loop e pre n0 w0))) = store_get (clientId A) (idb w0)"
    by (rule update_loop_frame)
  with before have "store_get (clientId A) (idb w1) = Some A"
    using store_get_mem [OF wf0 A(2)] by simp
  with sync show ?thesis by simp
qed

theorem update_not_found_stops_sync_witness:
  "fst (syncPendingTasks example_env (example_world [example_clean, example_orphan]))
     = Inl (HttpError 404)
   \<and> store_get (clientId example_orphan)
        (idb (snd (syncPendingTasks example_env (example_world [example_clean, example_orphan]))))
       = Some example_orphan
   \<and> fetches (snd (syncPendingTasks example_env (example_world [example_clean, example_orphan])))
       = [PUT_task (serverId_of (clientId example_orphan)) (body_of example_orphan)]"
proof -
  let ?w = "example_world [example_clean, example_orphan]"
  have on: "onLine example_env" by (simp add: example_env_def server_env_def)
  have wf: "wf_store (idb ?w)" by code_simp
  have creates: "sync_creates example_env ?w = (Inr 0, ?w)" by code_simp
  have snap: "filter (\<lambda>t. startsWith (clientId t) ''server_'') (getAllTasksLocal (idb ?w))
              = [] @ example_orphan # [example_clean]"
    by code_simp
  have before: "update_loop example_env [] 0 ?w = (Inr 0, ?w)" by simp
  have d: "dirty example_orphan" by (simp add: example_orphan_def)
  have nf: "fst (put_task example_env (serverId_of (clientId example_orphan))
                   (body_of example_orphan) (remote ?w))
            = Response 404 (Some \<lparr>ok = False, task = None\<rparr>)"
    by code_simp
  have log: "fetches ?w @ [PUT_task (serverId_of (clientId example_orphan)) (body_of example_orphan)]
             = [PUT_task (serverId_of (clientId example_orphan)) (body_of example_orphan)]"
    by (simp add: example_world_def)
  from update_not_found_stops_sync [OF on wf creates snap before d nf] show ?thesis
    unfolding log by blast
qed

text \<open>
  C7 as stated fails: an update of a task the server does not have is answered 404, and
  the run throws \<open>HTTP 404\<close> and keeps the object.
\<close>

theorem update_not_found_counterexample:
  "find (\<lambda>t. task_id t = 7) (TASKS (init_server 9000000)) = None
   \<and> fst (put_task_handler 9300000 (Some 7) (body_of example_orphan) (init_server 9000000))
       = Response 404 (Some \<lparr>ok = False, task = None\<rparr>)
   \<and> fst (syncPendingTasks example_env (example_world [example_clean, example_orphan]))
       = Inl (HttpError 404)
   \<and> store_get ''server_7''
        (idb (snd (syncPendingTasks example_env (example_world [example_clean, example_orphan]))))
       = Some example_orphan
   \<and> dirty example_orphan"
  by code_simp


subsection \<open>A store with nothing to send\<close>

lemma update_loop_clean:
  "\<forall>t \<in> set ts. \<not> deleted t \<and> \<not> dirty t \<Longrightarrow> update_loop e ts n w = (Inr n, w)"
  by (induction ts arbitrary: n w) (simp_all add: update_iteration_def)

lemma merge_loop_fetches: "fetches (merge_loop e rs w) = fetches w"
  by (induction rs arbitrary: w) (simp_all add: merge_iteration_def Let_def)

lemma sync_pull_fetches: "fetches (sync_pull e w) = fetches w @ [GET_tasks]"
  by (auto simp: sync_pull_def Let_def merge_loop_fetches
           split: prod.splits sum.splits option.splits)

text \<open>
  C1, as amended. On a store with no \<open>local_\<close> key, no dirty flag and no tombstone,
  \<open>syncPendingTasks\<close> sends no create, update or delete request and returns the count 0,
  but it does send one request: the \<open>GET /api/tasks\<close> of phase 3 (when
  \<open>navigator.onLine\<close> is false it sends nothing and throws).
\<close>

theorem sync_of_consistent_store:
  assumes "\<forall>t \<in> set (idb w). \<not> startsWith (clientId t) ''local_'' \<and> \<not> dirty t \<and> \<not> deleted t"
  shows "(onLine e \<longrightarrow>
            fst (syncPendingTasks e w) = Inr 0
            \<and> fetches (snd (syncPendingTasks e w)) = fetches w @ [GET_tasks])
       \<and> (\<not> onLine e \<longrightarrow> syncPendingTasks e w = (Inl Offline, w))"
proof -
  have "filter (\<lambda>t. \<not> deleted t \<and> startsWith (clientId t) ''local_'') (getAllTasksLocal (idb w)) = []"
    using assms by (auto simp: filter_empty_conv set_getAllTasksLocal)
  then have c: "sync_creates e w = (Inr 0, w)"
    by (simp add: sync_creates_def)
  have "\<forall>t \<in> set (filter (\<lambda>t. startsWith (clientId t) ''server_'') (getAllTasksLocal (idb w))).
          \<not> deleted t \<and> \<not> dirty t"
    using assms by (auto simp: set_getAllTasksLocal)
  then have u: "sync_updates e 0 w = (Inr 0, w)"
    unfolding sync_updates_def Let_def by (rule update_loop_clean)
  show ?thesis
    by (simp add: syncPendingTasks_def c u sync_pull_fetches)
qed

theorem sync_of_consistent_store_witness:
  "onLine example_env
   \<and> fst (syncPendingTasks example_env (example_world [example_clean, example_clean2])) = Inr 0
   \<and> fetches (snd (syncPendingTasks example_env (example_world [example_clean, example_clean2])))
       = fetches (example_world [example_clean, example_clean2]) @ [GET_tasks]"
proof -
  have h: "\<forall>t \<in> set (idb (example_world [example_clean, example_clean2])).
             \<not> startsWith (clientId t) ''local_'' \<and> \<not> dirty t \<and> \<not> deleted t"
    by (simp add: example_world_def example_clean_def example_clean2_def startsWith_def)
  have on: "onLine example_env"
    by (simp add: example_env_def server_env_def)
  from sync_of_consistent_store [OF h, of example_env] on show ?thesis by simp
qed

text \<open>
  C1 as stated fails: the two start-up tasks mirrored cleanly, and still one request.
\<close>

theorem sync_of_consistent_store_counterexample:
  "list_all (\<lambda>t. \<not> startsWith (clientId t) ''local_'' \<and> \<not> dirty t \<and> \<not> deleted t)
     [example_clean, example_clean2]
   \<and> fst (syncPendingTasks example_env (example_world [example_clean, example_clean2])) = Inr 0
   \<and> fetches (snd (syncPendingTasks example_env (example_world [example_clean, example_clean2])))
       = [GET_tasks]
   \<and> length (fetches (snd (syncPendingTasks example_env
                              (example_world [example_clean, example_clean2])))) \<noteq> 0"
  by code_simp

subsection \<open>Errors\<close>

lemma sync_pull_failed:
  "fetch_json (fst (get_tasks e (remote w))) = Inl err \<Longrightarrow>
   sync_pull e w = sent GET_tasks (snd (get_tasks e (remote w))) w"
  by (auto simp: sync_pull_def Let_def split: prod.splits)

text \<open>
  C6, as amended. (1) Let the tasks phase 1 iterates over be \<open>pre @ A # post\<close>, let the
  iterations for \<open>pre\<close> end normally, and let the create request for \<open>A\<close> fail (the
  fetch is rejected, the status is not 2xx, or the body cannot be read): then
  \<open>syncPendingTasks\<close> throws that error and stops, that request being its last.
  (2) Let phase 1 end normally, let the tasks phase 2 iterates over be \<open>pre @ A # post\<close>,
  let the iterations for \<open>pre\<close> end normally, let \<open>A\<close> be dirty and let the update
  request for \<open>A\<close> fail in one of these ways: then \<open>syncPendingTasks\<close> throws that
  error and stops, that request being its last. (3) Let phases 1 and 2 end normally and
  let the list request of phase 3 fail in one of these ways: then nothing is thrown;
  \<open>syncPendingTasks\<close> returns the count of phases 1 and 2, and the failed request is the
  only trace (the store is as phase 2 left it).
\<close>

theorem sync_error_propagation:
  assumes "onLine e"
  shows "(\<forall>pre A post n1 w1 err.
            filter (\<lambda>t. \<not> deleted t \<and> startsWith (clientId t) ''local_'')
              (getAllTasksLocal (idb w)) = pre @ A # post
            \<and> create_loop e pre 0 w = (Inr n1, w1)
            \<and> fetch_json (fst (post_tasks e (body_of A) (remote w1))) = Inl err
            \<longrightarrow> syncPendingTasks e w
                  = (Inl err, sent (POST_tasks (body_of A))
                                (snd (post_tasks e (body_of A) (remote w1))) w1))
       \<and> (\<forall>n0 w0 pre A post n1 w1 err.
            sync_creates e w = (Inr n0, w0)
            \<and> filter (\<lambda>t. startsWith (clientId t) ''server_'') (getAllTasksLocal (idb w0))
                = pre @ A # post
            \<and> update_loop e pre n0 w0 = (Inr n1, w1) \<and> dirty A
            \<and> fetch_json (fst (put_task e (serverId_of (clientId A)) (body_of A) (remote w1)))
                = Inl err
            \<longrightarrow> syncPendingTasks e w
                  = (Inl err, sent (PUT_task (serverId_of (clientId A)) (body_of A))
                                (snd (put_task e (serverId_of (clientId A)) (body_of A) (remote w1)))
                                w1))
       \<and> (\<forall>n1 w1 n2 w2 err.
            sync_creates e w = (Inr n1, w1) \<and> sync_updates e n1 w1 = (Inr n2, w2)
            \<and> fetch_json (fst (get_tasks e (remote w2))) = Inl err
            \<longrightarrow> syncPendingTasks e w
                  = (Inr n2, sent GET_tasks (snd (get_tasks e (remote w2))) w2))"
proof (intro conjI allI impI)
  fix pre A post n1 w1 err
  assume a: "filter (\<lambda>t. \<not> deleted t \<and> startsWith (clientId t) ''local_'')
              (getAllTasksLocal (idb w)) = pre @ A # post
            \<and> create_loop e pre 0 w = (Inr n1, w1)
            \<and> fetch_json (fst (post_tasks e (body_of A) (remote w1))) = Inl err"
  then have "create_loop e (pre @ A # post) 0 w
             = (Inl err, sent (POST_tasks (body_of A)) (snd (post_tasks e (body_of A) (remote w1))) w1)"
    using create_iteration_fails [of e A w1 err] by (simp add: create_loop_append)
  with a assms show "syncPendingTasks e w
        = (Inl err, sent (POST_tasks (body_of A)) (snd (post_tasks e (body_of A) (remote w1))) w1)"
    by (simp add: syncPendingTasks_def sync_creates_def)
next
  fix n0 w0 pre A post n1 w1 err
  assume a: "sync_creates e w = (Inr n0, w0)
            \<and> filter (\<lambda>t. startsWith (clientId t) ''server_'') (getAllTasksLocal (idb w0))
                = pre @ A # post
            \<and> update_loop e pre n0 w0 = (Inr n1, w1) \<and> dirty A
            \<and> fetch_json (fst (put_task e (serverId_of (clientId A)) (body_of A) (remote w1)))
                = Inl err"
  let ?w2 = "sent (PUT_task (serverId_of (clientId A)) (body_of A))
               (snd (put_task e (serverId_of (clientId A)) (body_of A) (remote w1))) w1"
  from a have snap: "filter (\<lambda>t. startsWith (clientId t) ''server_'') (getAllTasksLocal (idb w0))
                = pre @ A # post"
    by simp
  have nd: "\<not> deleted A" using snapshot_server [OF snap] by simp
  from a have "update_iteration e A w1 = (Inl err, ?w2)"
    using update_iteration_fails [OF nd, of e w1 err] by simp
  with a have "update_loop e (pre @ A # post) n0 w0 = (Inl err, ?w2)"
    by (simp add: update_loop_append)
  with a assms show "syncPendingTasks e w = (Inl err, ?w2)"
    by (simp add: syncPendingTasks_def sync_updates_def)
next
  fix n1 w1 n2 w2 err
  assume "sync_creates e w = (Inr n1, w1) \<and> sync_updates e n1 w1 = (Inr n2, w2)
            \<and> fetch_json (fst (get_tasks e (remote w2))) = Inl err"
  with assms show "syncPendingTasks e w
        = (Inr n2, sent GET_tasks (snd (get_tasks e (remote w2))) w2)"
    by (simp add: syncPendingTasks_def sync_pull_failed)
qed

theorem sync_error_propagation_witness:
  "onLine (dead_env example_clock)
   \<and> syncPendingTasks (dead_env example_clock) (dead_world [example_local])
       = (Inl FetchFailed,
          sent (POST_tasks (body_of example_local)) () (dead_world [example_local]))
   \<and> syncPendingTasks (dead_env example_clock) (dead_world [example_edited])
       = (Inl FetchFailed,
          sent (PUT_task (serverId_of (clientId example_edited)) (body_of example_edited)) ()
            (dead_world [example_edited]))
   \<and> syncPendingTasks (dead_env example_clock) (dead_world [example_clean])
       = (Inr 0, sent GET_tasks () (dead_world [example_clean]))"
proof -
  let ?e = "dead_env example_clock"
  have on: "onLine ?e" by (simp add: dead_env_def)
  let ?wa = "dead_world [example_local]"
  have a1: "filter (\<lambda>t. \<not> deleted t \<and> startsWith (clientId t) ''local_'')
              (getAllTasksLocal (idb ?wa)) = [] @ example_local # []"
    by code_simp
  have a2: "create_loop ?e [] 0 ?wa = (Inr 0, ?wa)" by simp
  have a3: "fetch_json (fst (post_tasks ?e (body_of example_local) (remote ?wa))) = Inl FetchFailed"
    by (simp add: dead_env_def fetch_json_def)
  have a4: "snd (post_tasks ?e (body_of example_local) (remote ?wa)) = ()" by simp
  from sync_error_propagation [OF on, of ?wa] a1 a2 a3
  have ra: "syncPendingTasks ?e ?wa
            = (Inl FetchFailed, sent (POST_tasks (body_of example_local))
                 (snd (post_tasks ?e (body_of example_local) (remote ?wa))) ?wa)"
    by blast
  let ?wb = "dead_world [example_edited]"
  let ?id = "serverId_of (clientId example_edited)"
  have b1: "sync_creates ?e ?wb = (Inr 0, ?wb)" by code_simp
  have b2: "filter (\<lambda>t. startsWith (clientId t) ''server_'') (getAllTasksLocal (idb ?wb))
            = [] @ example_edited # []"
    by code_simp
  have b3: "update_loop ?e [] 0 ?wb = (Inr 0, ?wb)" by simp
  have b4: "dirty example_edited" by (simp add: example_edited_def)
  have b5: "fetch_json (fst (put_task ?e ?id (body_of example_edited) (remote ?wb))) = Inl FetchFailed"
    by (simp add: dead_env_def fetch_json_def)
  have b6: "snd (put_task ?e ?id (body_of example_edited) (remote ?wb)) = ()" by simp
  from sync_error_propagation [OF on, of ?wb] b1 b2 b3 b4 b5
  have rb: "syncPendingTasks ?e ?wb
            = (Inl FetchFailed, sent (PUT_task ?id (body_of example_edited))
                 (snd (put_task ?e ?id (body_of example_edited) (remote ?wb))) ?wb)"
    by blast
  let ?wc = "dead_world [example_clean]"
  have c1: "sync_creates ?e ?wc = (Inr 0, ?wc)" by code_simp
  have c2: "sync_updates ?e 0 ?wc = (Inr 0, ?wc)" by code_simp
  have c3: "fetch_json (fst (get_tasks ?e (remote ?wc))) = Inl FetchFailed"
    by (simp add: dead_env_def fetch_json_def)
  have c4: "snd (get_tasks ?e (remote ?wc)) = ()" by simp
  from sync_error_propagation [OF on, of ?wc] c1 c2 c3
  have rc: "syncPendingTasks ?e ?wc = (Inr 0, sent GET_tasks (snd (get_tasks ?e (remote ?wc))) ?wc)"
    by blast
  from on ra rb rc show ?thesis
    unfolding a4 b6 c4 by blast
qed

text \<open>
  C6 as stated fails: with every request lost, the list request of phase 3 fails and
  \<open>syncPendingTasks\<close> returns 0 without an error. And a lost create (phase 1) and a
  lost update (phase 2) end the run with the same error: what is thrown does not tell
  the phase.
\<close>

theorem pull_failure_counterexample:
  "fetch_json (fst (get_tasks (dead_env example_clock) ())) = Inl FetchFailed
   \<and> syncPendingTasks (dead_env example_clock) (dead_world [example_clean, example_clean2])
       = (Inr 0, sent GET_tasks () (dead_world [example_clean, example_clean2]))
   \<and> fst (syncPendingTasks (dead_env example_clock) (dead_world [example_local]))
       = Inl FetchFailed
   \<and> fetches (snd (syncPendingTasks (dead_env example_clock) (dead_world [example_local])))
       = [POST_tasks (body_of example_local)]
   \<and> fst (syncPendingTasks (dead_env example_clock) (dead_world [example_edited]))
       = Inl FetchFailed
   \<and> fetches (snd (syncPendingTasks (dead_env example_clock) (dead_world [example_edited])))
       = [PUT_task (Some 1) (body_of example_edited)]"
  by code_simp


subsection \<open>The merge loop\<close>

lemma merge_iteration_get:
  "store_get k (idb (merge_iteration e r w)) =
     (if k = server_clientId (task_id r)
         \<and> (case store_get k (idb w) of None \<Rightarrow> True | Some x \<Rightarrow> \<not> dirty x)
      then Some ((with_clientId r k)\<lparr>dirty := False, updatedAt := date_now e (ticks w)\<rparr>)
      else store_get k (idb w))"
  by (auto simp: merge_iteration_def Let_def putTaskLocalClean_def store_get_put with_clientId_def
           split: option.splits)

lemma clean_copy_of_put:
  "clean_copy_of r ((with_clientId r (server_clientId (task_id r)))\<lparr>dirty := False, updatedAt := u\<rparr>)"
  by (simp add: clean_copy_of_def with_clientId_def)

lemma merge_loop_keeps_dirty:
  "store_get k (idb w) = Some T \<Longrightarrow> dirty T \<Longrightarrow> store_get k (idb (merge_loop e rs w)) = Some T"
  by (induction rs arbitrary: w) (simp_all add: merge_iteration_get)

lemma merge_loop_keeps_copy:
  assumes "\<forall>r' \<in> set rs. task_id r' = task_id r \<longrightarrow> r' = r"
      and "\<exists>x. store_get (server_clientId (task_id r)) (idb w) = Some x \<and> clean_copy_of r x"
  shows "\<exists>x. store_get (server_clientId (task_id r)) (idb (merge_loop e rs w)) = Some x
             \<and> clean_copy_of r x"
  using assms
proof (induction rs arbitrary: w)
  case Nil
  then show ?case by simp
next
  case (Cons r0 rs)
  have "\<exists>x. store_get (server_clientId (task_id r)) (idb (merge_iteration e r0 w)) = Some x
             \<and> clean_copy_of r x"
  proof (cases "task_id r0 = task_id r")
    case True
    with Cons.prems(1) have r0: "r0 = r" by simp
    from Cons.prems(2) obtain x where
      x: "store_get (server_clientId (task_id r)) (idb w) = Some x" and "clean_copy_of r x"
      by blast
    then have "\<not> dirty x" by (simp add: clean_copy_of_def)
    with x have "store_get (server_clientId (task_id r)) (idb (merge_iteration e r w))
                 = Some ((with_clientId r (server_clientId (task_id r)))
                           \<lparr>dirty := False, updatedAt := date_now e (ticks w)\<rparr>)"
      by (simp add: merge_iteration_get)
    with r0 show ?thesis by (simp add: clean_copy_of_put)
  next
    case False
    with Cons.prems(2) show ?thesis by (simp add: merge_iteration_get)
  qed
  with Cons.IH [of "merge_iteration e r0 w"] Cons.prems(1) show ?case by simp
qed

lemma merge_loop_copies:
  assumes "r \<in> set rs"
      and "\<forall>r' \<in> set rs. task_id r' = task_id r \<longrightarrow> r' = r"
      and "\<forall>T. store_get (server_clientId (task_id r)) (idb w) = Some T \<longrightarrow> \<not> dirty T"
  shows "\<exists>x. store_get (server_clientId (task_id r)) (idb (merge_loop e rs w)) = Some x
             \<and> clean_copy_of r x"
  using assms
proof (induction rs arbitrary: w)
  case Nil
  then show ?case by simp
next
  case (Cons r0 rs)
  show ?case
  proof (cases "task_id r0 = task_id r")
    case True
    with Cons.prems(2) have r0: "r0 = r" by simp
    have "\<exists>x. store_get (server_clientId (task_id r)) (idb (merge_iteration e r w)) = Some x
               \<and> clean_copy_of r x"
      using Cons.prems(3)
      by (auto simp: merge_iteration_get clean_copy_of_put split: option.splits)
    then show ?thesis
      using merge_loop_keeps_copy [of rs r "merge_iteration e r w" e] Cons.prems(2) r0 by simp
  next
    case False
    with Cons.prems(1) have "r \<in> set rs" by auto
    moreover have "\<forall>T. store_get (server_clientId (task_id r)) (idb (merge_iteration e r0 w)) = Some T
                     \<longrightarrow> \<not> dirty T"
      using False Cons.prems(3) by (simp add: merge_iteration_get)
    ultimately show ?thesis
      using Cons.IH [of "merge_iteration e r0 w"] Cons.prems(2) by simp
  qed
qed

lemma sync_pull_merges:
  "fetch_json (fst (get_tasks e (remote w))) = Inr d \<Longrightarrow> list_ok d \<Longrightarrow> tasks d = Some rs \<Longrightarrow>
   sync_pull e w = merge_loop e rs (sent GET_tasks (snd (get_tasks e (remote w))) w)"
  by (auto simp: sync_pull_def Let_def split: prod.splits)

lemma dirty_record_is_old_creates:
  assumes "store_get k (idb (snd (sync_creates e w))) = Some T" and "dirty T"
  shows "store_get k (idb w) = Some T"
proof -
  let ?P = "\<lambda>s. store_get k s = Some T \<longrightarrow> store_get k (idb w) = Some T"
  have "?P (idb (snd (sync_creates e w)))"
    by (rule sync_creates_preserves [of ?P])
       (use assms(2) in \<open>auto simp: store_get_delete store_get_put split: if_splits\<close>)
  with assms(1) show ?thesis by simp
qed

lemma dirty_record_is_old_updates:
  assumes "store_get k (idb (snd (sync_updates e n w))) = Some T" and "dirty T"
  shows "store_get k (idb w) = Some T"
proof -
  let ?P = "\<lambda>s. store_get k s = Some T \<longrightarrow> store_get k (idb w) = Some T"
  have "?P (idb (snd (sync_updates e n w)))"
    by (rule sync_updates_preserves [of ?P])
       (use assms(2) in \<open>auto simp: store_get_put split: if_splits\<close>)
  with assms(1) show ?thesis by simp
qed

text \<open>
  C3. \<open>w\<close> is the state at the start of the pull phase. (1) An object that is dirty then
  is in the store unchanged after the pull, whatever the server sent. (2) When the list
  request succeeds, for a remote task \<open>r\<close> (the only one in the list with its id) whose
  key has no object or a clean one, the store afterwards has under that key an object with
  \<open>r\<close>'s title, description, completed, location and photo, not dirty. (3) When \<open>w\<close>
  is reached from \<open>w0\<close> by phases 1 and 2 of a run of \<open>syncPendingTasks\<close>, the result
  of that run is the result of this pull, and an object dirty in \<open>w\<close> is the same object
  the store had before the run.
\<close>

theorem pull_local_wins_else_remote:
  "(\<forall>k T. store_get k (idb w) = Some T \<and> dirty T
       \<longrightarrow> store_get k (idb (sync_pull e w)) = Some T)
   \<and> (\<forall>d rs r.
         fetch_json (fst (get_tasks e (remote w))) = Inr d \<and> list_ok d \<and> tasks d = Some rs
         \<and> r \<in> set rs \<and> (\<forall>r' \<in> set rs. task_id r' = task_id r \<longrightarrow> r' = r)
         \<and> (\<forall>T. store_get (server_clientId (task_id r)) (idb w) = Some T \<longrightarrow> \<not> dirty T)
       \<longrightarrow> (\<exists>x. store_get (server_clientId (task_id r)) (idb (sync_pull e w)) = Some x
                \<and> title x = title r \<and> description x = description r
                \<and> completed x = completed r \<and> location x = location r
                \<and> photo x = photo r \<and> \<not> dirty x))
   \<and> (\<forall>n1 w1 n2 k T.
         onLine e \<and> sync_creates e w0 = (Inr n1, w1) \<and> sync_updates e n1 w1 = (Inr n2, w)
         \<and> store_get k (idb w) = Some T \<and> dirty T
       \<longrightarrow> snd (syncPendingTasks e w0) = sync_pull e w \<and> store_get k (idb w0) = Some T)"
proof (intro conjI allI impI)
  fix k T
  assume "store_get k (idb w) = Some T \<and> dirty T"
  then show "store_get k (idb (sync_pull e w)) = Some T"
    using sync_pull_preserves [of "\<lambda>s. store_get k s = Some T" w e]
    by (auto simp: sync_pull_def Let_def merge_loop_keeps_dirty
             split: prod.splits sum.splits option.splits)
next
  fix d rs r
  assume a: "fetch_json (fst (get_tasks e (remote w))) = Inr d \<and> list_ok d \<and> tasks d = Some rs
         \<and> r \<in> set rs \<and> (\<forall>r' \<in> set rs. task_id r' = task_id r \<longrightarrow> r' = r)
         \<and> (\<forall>T. store_get (server_clientId (task_id r)) (idb w) = Some T \<longrightarrow> \<not> dirty T)"
  let ?w1 = "sent GET_tasks (snd (get_tasks e (remote w))) w"
  from a have pull: "sync_pull e w = merge_loop e rs ?w1"
    by (simp add: sync_pull_merges)
  from a have "\<exists>x. store_get (server_clientId (task_id r)) (idb (merge_loop e rs ?w1)) = Some x
                   \<and> clean_copy_of r x"
    by (intro merge_loop_copies) simp_all
  with pull show "\<exists>x. store_get (server_clientId (task_id r)) (idb (sync_pull e w)) = Some x
                \<and> title x = title r \<and> description x = description r
                \<and> completed x = completed r \<and> location x = location r
                \<and> photo x = photo r \<and> \<not> dirty x"
    by (auto simp: clean_copy_of_def)
next
  fix n1 w1 n2 k T
  assume a: "onLine e \<and> sync_creates e w0 = (Inr n1, w1) \<and> sync_updates e n1 w1 = (Inr n2, w)
         \<and> store_get k (idb w) = Some T \<and> dirty T"
  then show "snd (syncPendingTasks e w0) = sync_pull e w"
    by (simp add: syncPendingTasks_def)
  from a have "store_get k (idb w1) = Some T"
    using dirty_record_is_old_updates [of k e n1 w1 T] by simp
  with a show "store_get k (idb w0) = Some T"
    using dirty_record_is_old_creates [of k e w0 T] by simp
qed

theorem pull_local_wins_else_remote_witness:
  "store_get ''server_1'' (idb (sync_pull example_env (example_world [example_edited, example_stale])))
     = Some example_edited
   \<and> title example_edited = ''Comprar pan''
   \<and> (\<exists>x. store_get (server_clientId 2)
              (idb (sync_pull example_env (example_world [example_edited, example_stale]))) = Some x
          \<and> title x = ''Enviar reporte'' \<and> \<not> dirty x)"
proof -
  let ?w = "example_world [example_edited, example_stale]"
  let ?rs = "TASKS (init_server 9000000)"
  let ?r = "?rs ! 1"
  have a: "store_get ''server_1'' (idb ?w) = Some example_edited \<and> dirty example_edited"
    by code_simp
  have t: "title example_edited = ''Comprar pan''" by (simp add: example_edited_def)
  have b: "fetch_json (fst (get_tasks example_env (remote ?w)))
             = Inr \<lparr>list_ok = True, tasks = Some ?rs\<rparr>
           \<and> list_ok \<lparr>list_ok = True, tasks = Some ?rs\<rparr>
           \<and> tasks \<lparr>list_ok = True, tasks = Some ?rs\<rparr> = Some ?rs
           \<and> ?r \<in> set ?rs \<and> (\<forall>r' \<in> set ?rs. task_id r' = task_id ?r \<longrightarrow> r' = ?r)
           \<and> (\<forall>T. store_get (server_clientId (task_id ?r)) (idb ?w) = Some T \<longrightarrow> \<not> dirty T)"
  proof (intro conjI)
    show "fetch_json (fst (get_tasks example_env (remote ?w)))
             = Inr \<lparr>list_ok = True, tasks = Some ?rs\<rparr>"
      by code_simp
    show "?r \<in> set ?rs" by (simp add: init_server_def)
    show "\<forall>r' \<in> set ?rs. task_id r' = task_id ?r \<longrightarrow> r' = ?r" by (simp add: init_server_def)
    have "store_get (server_clientId (task_id ?r)) (idb ?w) = Some example_stale"
      by code_simp
    moreover have "\<not> dirty example_stale"
      by (simp add: example_stale_def example_clean2_def)
    ultimately show "\<forall>T. store_get (server_clientId (task_id ?r)) (idb ?w) = Some T \<longrightarrow> \<not> dirty T"
      by simp
  qed simp_all
  have id: "task_id ?r = 2" and ti: "title ?r = ''Enviar reporte''"
    by (simp_all add: init_server_def)
  from pull_local_wins_else_remote [of ?w example_env] a b
  have "store_get ''server_1'' (idb (sync_pull example_env ?w)) = Some example_edited"
    and "\<exists>x. store_get (server_clientId (task_id ?r)) (idb (sync_pull example_env ?w)) = Some x
             \<and> title x = title ?r \<and> \<not> dirty x"
    by blast+
  with t id ti show ?thesis by simp
qed

subsection \<open>No delete request\<close>

lemma create_loop_no_delete:
  "filter is_delete (fetches (snd (create_loop e ts n w))) = filter is_delete (fetches w)"
proof (induction ts arbitrary: n w)
  case Nil
  then show ?case by simp
next
  case (Cons t ts)
  obtain res w1 where it: "create_iteration e t w = (res, w1)" by fastforce
  with create_iteration_fetches [of e t w]
  have "filter is_delete (fetches w1) = filter is_delete (fetches w)" by simp
  with it Cons.IH [of _ w1] show ?case by (cases res) simp_all
qed

lemma update_iteration_no_delete:
  "\<not> deleted t \<Longrightarrow>
   filter is_delete (fetches (snd (update_iteration e t w))) = filter is_delete (fetches w)"
  by (auto simp: update_iteration_def Let_def split: prod.splits sum.splits)

lemma update_loop_no_delete:
  "\<forall>t \<in> set ts. \<not> deleted t \<Longrightarrow>
   filter is_delete (fetches (snd (update_loop e ts n w))) = filter is_delete (fetches w)"
proof (induction ts arbitrary: n w)
  case Nil
  then show ?case by simp
next
  case (Cons t ts)
  obtain res w1 where it: "update_iteration e t w = (res, w1)" by fastforce
  with update_iteration_no_delete [of t e w] Cons.prems
  have "filter is_delete (fetches w1) = filter is_delete (fetches w)" by simp
  with it Cons.IH [of _ w1] Cons.prems show ?case by (cases res) simp_all
qed

lemma sync_sends_no_delete:
  "filter is_delete (fetches (snd (syncPendingTasks e w))) = filter is_delete (fetches w)"
proof -
  have c: "filter is_delete (fetches (snd (sync_creates e w))) = filter is_delete (fetches w)"
    by (simp add: sync_creates_def create_loop_no_delete)
  have u: "filter is_delete (fetches (snd (sync_updates e n w'))) = filter is_delete (fetches w')"
    for n w'
    unfolding sync_updates_def Let_def
    by (rule update_loop_no_delete) (simp add: set_getAllTasksLocal)
  obtain res1 w1 where c1: "sync_creates e w = (res1, w1)" by fastforce
  show ?thesis
  proof (cases res1)
    case (Inl err)
    with c c1 show ?thesis by (simp add: syncPendingTasks_def)
  next
    case (Inr n1)
    obtain res2 w2 where u2: "sync_updates e n1 w1 = (res2, w2)" by fastforce
    with u [of n1 w1] c c1 have "filter is_delete (fetches w2) = filter is_delete (fetches w)"
      by simp
    with c1 u2 Inr show ?thesis
      by (cases res2) (simp_all add: syncPendingTasks_def sync_pull_fetches)
  qed
qed

subsection \<open>A tombstone\<close>

text \<open>
  C5. A task of the server that the user deletes becomes a tombstone
  (\<open>deleteTaskLocal\<close>). The next \<open>syncPendingTasks\<close> against the server sends no delete
  request: its only request is the list request. It returns 0, the tombstone is still in
  the store and the task is still on the server.
\<close>

theorem tombstone_never_reaches_server:
  "deleteTaskLocal 9200000 ''server_2'' [example_clean, example_clean2]
     = [example_clean, example_tombstone]
   \<and> deleted example_tombstone \<and> dirty example_tombstone
   \<and> fst (syncPendingTasks example_env (example_world [example_clean, example_tombstone])) = Inr 0
   \<and> fetches (snd (syncPendingTasks example_env (example_world [example_clean, example_tombstone])))
       = [GET_tasks]
   \<and> store_get ''server_2''
        (idb (snd (syncPendingTasks example_env (example_world [example_clean, example_tombstone]))))
       = Some example_tombstone
   \<and> map task_id
        (TASKS (fst (remote (snd (syncPendingTasks example_env
                                    (example_world [example_clean, example_tombstone]))))))
       = [1, 2]"
  by code_simp

end
